theory Spec2Isabelle
  imports
    Main
    "HOL-Library.Word"
    "HOL-Library.Char_ord"
    "HOL-Library.List_Lexorder"
    "HOL-Library.Product_Lexorder"
begin

unbundle bit_operations_syntax

section \<open>The configuration (\<open>config.proto\<close>)\<close>

text \<open>
  The messages of \<open>config.proto\<close>, as protobuf-c hands them to \<open>init.c\<close> and as
  \<open>config_pb2\<close> builds them in \<open>umlbox\<close>. A \<open>Limit\<close>'s resource is the enum's number
  (proto3 keeps numbers outside the enum); \<open>soft\<close> and \<open>hard\<close> are \<open>int64\<close>.
  A string field of a \<open>Mount\<close> is a C string, a sequence of bytes, in \<open>init.c\<close> and a
  Python \<open>str\<close>, a sequence of code points, in \<open>umlbox\<close>: the message is declared for
  either kind of string.
\<close>

record 's mount_msg =
  target :: 's
  source :: 's
  fstype :: 's
  data :: 's
  ro :: bool
  nosuid :: bool

type_synonym Mount = "string mount_msg"

record EnvVar =
  env_key :: string
  env_value :: string

record Limit =
  resource :: int
  soft :: "64 word"
  hard :: "64 word"

record Run =
  daemon :: bool
  cmd :: string
  arg :: "string list"
  cwd :: string
  run_input :: string
  run_output :: string
  run_error :: string
  cat_output :: bool
  env :: "EnvVar list"
  user :: bool
  uid :: int
  gid :: int
  limit :: "Limit list"

record Config =
  tty_raw :: "string list"
  mount :: "Mount list"
  run :: "Run list"
  random :: "8 word list"

section \<open>The host: the mount list (\<open>umlbox\<close>, \<open>main\<close>)\<close>

text \<open>
  A Python \<open>str\<close> is a sequence of Unicode code points: \<open>len\<close> counts them and
  \<open>\<le>\<close> compares two strings code point by code point, a proper prefix first. A
  literal of the script is written \<open>py ''...''\<close>.
\<close>

type_synonym pystr = "nat list"

type_synonym PyMount = "pystr mount_msg"

definition py :: "string \<Rightarrow> pystr" where
  "py s = map of_char s"

text \<open>
  \<^verbatim>\<open>
  def host_mount(target, host, ro):
      if not host.endswith('/'): host += '/'
      return config_pb2.Mount(target=target, source='none', fstype='hostfs',
                              data=host, ro=ro, nosuid=True)
  \<close>
\<close>

definition host_mount :: "pystr \<Rightarrow> pystr \<Rightarrow> bool \<Rightarrow> PyMount" where
  "host_mount tgt host r =
     \<lparr>target = tgt, source = py ''none'', fstype = py ''hostfs'',
      data = (if host \<noteq> [] \<and> last host = of_char CHR ''/'' then host else host @ py ''/''),
      ro = r, nosuid = True\<rparr>"

text \<open>A Python \<open>dict\<close> keeps its keys in insertion order; assigning to a key that is
  there replaces the value where it stands.\<close>

fun dict_set :: "('k \<times> 'v) list \<Rightarrow> 'k \<Rightarrow> 'v \<Rightarrow> ('k \<times> 'v) list" where
  "dict_set [] k v = [(k, v)]"
| "dict_set (p # ps) k v = (if fst p = k then (k, v) # ps else p # dict_set ps k v)"

text \<open>The command-line options the mount list is built from (\<open>parse_args\<close>).\<close>

record host_args =
  args_base_mounts :: bool
  args_mount :: "pystr list"
  args_mount_write :: "pystr list"
  args_translate :: "(pystr \<times> pystr) list"
  args_translate_write :: "(pystr \<times> pystr) list"

definition base_dirs :: "pystr list" where
  "base_dirs = map py [''/usr'', ''/bin'', ''/sbin'', ''/lib'', ''/lib32'', ''/lib64'',
                       ''/etc/alternatives'', ''/dev'']"

text \<open>
  \<^verbatim>\<open>
  mounts = { '/tmp': Mount(target='/tmp', source='tmpfs', fstype='tmpfs'),
             '/proc': Mount(target='/proc', source='proc', fstype='proc'),
             '/sys': Mount(target='/sys', source='sysfs', fstype='sysfs') }
  if args.base_mounts:
      for m in ('/usr', ...):
          if os.path.isdir(m): mounts[m] = host_mount(target=m, host=m, ro=True)
  for ro, specs in ((True, args.mount), (False, args.mount_write)):
      for spec in specs:
          mdir = os.path.abspath(spec)
          mounts[mdir] = host_mount(target=mdir, host=mdir, ro=ro)
  for ro, specs in ((True, args.translate), (False, args.translate_write)):
      for guest, host in specs:
          mdir = os.path.abspath(host)
          mounts[guest] = host_mount(target=guest, host=host, ro=ro)
  for mdir in sorted(mounts.keys(), key=lambda m: (len(m), m)):
      cfg.mount.extend([mounts[mdir]])
  \<close>
  \<open>os.path.isdir\<close> and \<open>os.path.abspath\<close> are the host's file system: parameters.
  The guest path of a \<open>--translate\<close> goes into the \<open>Mount\<close> as it is given (the
  \<open>mdir\<close> of that loop is not used).
\<close>

definition plain_mount :: "string \<Rightarrow> string \<Rightarrow> string \<Rightarrow> PyMount" where
  "plain_mount tgt src fs =
     \<lparr>target = py tgt, source = py src, fstype = py fs, data = [], ro = False, nosuid = False\<rparr>"

definition add_dirs :: "(pystr \<Rightarrow> pystr) \<Rightarrow> bool \<Rightarrow> (pystr \<times> PyMount) list \<Rightarrow> pystr list
    \<Rightarrow> (pystr \<times> PyMount) list" where
  "add_dirs abspath r mounts specs =
     foldl (\<lambda>d spec. let mdir = abspath spec in dict_set d mdir (host_mount mdir mdir r))
       mounts specs"

definition add_translated :: "bool \<Rightarrow> (pystr \<times> PyMount) list \<Rightarrow> (pystr \<times> pystr) list
    \<Rightarrow> (pystr \<times> PyMount) list" where
  "add_translated r mounts specs =
     foldl (\<lambda>d (guest, host). dict_set d guest (host_mount guest host r)) mounts specs"

definition host_mounts :: "(pystr \<Rightarrow> bool) \<Rightarrow> (pystr \<Rightarrow> pystr) \<Rightarrow> host_args
    \<Rightarrow> (pystr \<times> PyMount) list" where
  "host_mounts isdir abspath args =
     (let mounts = [(py ''/tmp'', plain_mount ''/tmp'' ''tmpfs'' ''tmpfs''),
                    (py ''/proc'', plain_mount ''/proc'' ''proc'' ''proc''),
                    (py ''/sys'', plain_mount ''/sys'' ''sysfs'' ''sysfs'')];
          mounts = (if args_base_mounts args
                    then foldl (\<lambda>d m. if isdir m then dict_set d m (host_mount m m True) else d)
                           mounts base_dirs
                    else mounts);
          mounts = add_dirs abspath True mounts (args_mount args);
          mounts = add_dirs abspath False mounts (args_mount_write args);
          mounts = add_translated True mounts (args_translate args);
          mounts = add_translated False mounts (args_translate_write args)
      in mounts)"

text \<open>The key of the sort, \<open>(len(m), m)\<close>: Python compares the pairs lexicographically,
  the lengths as numbers of code points and the strings code point by code point, which is
  the order of \<open>nat \<times> pystr\<close> here. \<open>sorted\<close> is stable, as \<open>sort_key\<close> is.\<close>

definition sort_order :: "pystr \<Rightarrow> nat \<times> pystr" where
  "sort_order m = (length m, m)"

definition sorted_mounts :: "(pystr \<times> PyMount) list \<Rightarrow> PyMount list" where
  "sorted_mounts mounts =
     concat (map (\<lambda>mdir. case map_of mounts mdir of Some m \<Rightarrow> [m] | None \<Rightarrow> [])
                 (sort_key sort_order (map fst mounts)))"

definition cfg_mount :: "(pystr \<Rightarrow> bool) \<Rightarrow> (pystr \<Rightarrow> pystr) \<Rightarrow> host_args \<Rightarrow> PyMount list" where
  "cfg_mount isdir abspath args = sorted_mounts (host_mounts isdir abspath args)"

section \<open>Machine types and the \<open>read\<close> system call\<close>

text \<open>
  The guest supervisor (\<open>init.c\<close>) is C on an LP64 Linux: \<open>size_t\<close> is an unsigned
  64-bit word, \<open>uint32_t\<close> an unsigned 32-bit word, a byte an 8-bit word.
\<close>

type_synonym byte = "8 word"
type_synonym size_t = "64 word"
type_synonym uint32_t = "32 word"

datatype errno = EINTR | EINVAL | EPIPE | EIO | ENOEXEC | EACCES | ENOENT | ECHILD

text \<open>
  An open file descriptor, as \<open>read(2)\<close> sees it: the bytes still to come, and what each
  of the next calls does (deliver at most so many bytes, or fail with an errno). When the
  schedule is empty every call delivers all that was asked for and is there, which is what
  a regular file or a block device does.
\<close>

datatype rd = Deliver nat | RdError errno

record fd_state =
  pending :: "byte list"
  sched :: "rd list"

text \<open>\<open>read(fd, at, req)\<close>: the returned count (\<open>-1\<close> on error), the bytes stored at
  \<open>at\<close>, the errno it sets, and the descriptor afterwards.\<close>

definition read_sys :: "fd_state \<Rightarrow> nat \<Rightarrow> int \<times> byte list \<times> errno option \<times> fd_state" where
  "read_sys fd req =
     (case sched fd of
        RdError e # rest \<Rightarrow> (- 1, [], Some e, fd\<lparr>sched := rest\<rparr>)
      | Deliver k # rest \<Rightarrow>
          (let n = min req (min k (length (pending fd)))
           in (int n, take n (pending fd), None,
               \<lparr>pending = drop n (pending fd), sched = rest\<rparr>))
      | [] \<Rightarrow>
          (let n = min req (length (pending fd))
           in (int n, take n (pending fd), None,
               \<lparr>pending = drop n (pending fd), sched = []\<rparr>)))"

text \<open>Storing bytes into a buffer at an offset; the rest of the buffer keeps what it held.\<close>

definition store :: "byte list \<Rightarrow> nat \<Rightarrow> byte list \<Rightarrow> byte list" where
  "store buf at bs = take at buf @ bs @ drop (at + length bs) buf"

section \<open>\<open>readall\<close>\<close>

text \<open>
  \<^verbatim>\<open>
  static ssize_t readall(int fd, void* buf, size_t count) {
    char* at = (char*) buf;
    size_t got = 0;
    while (got < count) {
      ssize_t chunk = read(fd, at, count - got);
      if (chunk < 0) return -1;
      if (chunk == 0) { errno = EPIPE; return -1; }
      at += chunk;
      got -= chunk;
    }
    return count;
  }
  \<close>
  The result is the return value, the errno set (if any), the buffer, the offset \<open>at\<close>
  has reached (the number of bytes stored) and the descriptor.
\<close>

lemma read_sys_progress:
  assumes "read_sys fd req = (chunk, bs, e, fd')" and "\<not> chunk < 0" and "chunk \<noteq> 0"
  shows "length (pending fd') < length (pending fd)"
  using assms
  by (auto simp: read_sys_def Let_def split: list.splits rd.splits)

function readall_loop ::
  "fd_state \<Rightarrow> byte list \<Rightarrow> nat \<Rightarrow> size_t \<Rightarrow> size_t
     \<Rightarrow> int \<times> errno option \<times> byte list \<times> nat \<times> fd_state" where
  "readall_loop fd buf at got count =
     (if got < count then
        (case read_sys fd (unat (count - got)) of
           (chunk, bs, e, fd') \<Rightarrow>
             if chunk < 0 then (- 1, e, buf, at, fd')
             else if chunk = 0 then (- 1, Some EPIPE, buf, at, fd')
             else readall_loop fd' (store buf at bs) (at + nat chunk)
                    (got - word_of_int chunk) count)
      else (sint count, None, buf, at, fd))"
  by pat_completeness auto
termination
  apply (relation "measure (\<lambda>(fd, buf, at, got, count). length (pending fd))")
   apply simp
  apply clarsimp
  apply (rule read_sys_progress)
    apply (rule sym, assumption)
   apply simp_all
  done

declare readall_loop.simps [simp del]

definition readall :: "fd_state \<Rightarrow> byte list \<Rightarrow> size_t
    \<Rightarrow> int \<times> errno option \<times> byte list \<times> nat \<times> fd_state" where
  "readall fd buf count = readall_loop fd buf 0 0 count"

section \<open>The guest supervisor (\<open>init.c\<close>): system calls and failure\<close>

text \<open>
  What a process does is the list of the system calls it makes, in order, and how it ends:
  it returns a value to its caller, it exits, its image is replaced by a successful
  \<open>execv\<close>, or it blocks for ever. Whether a call succeeds is the kernel's answer, a
  parameter \<open>ok\<close> of the model; \<open>CallMount\<close> and \<open>CallRun\<close> mark the calls of
  \<open>handle_mount\<close> and \<open>handle_run\<close>.
\<close>

datatype signal = SIGTERM | SIGKILL

datatype rlimit_resource =
  RLIMIT_CPU | RLIMIT_FSIZE | RLIMIT_DATA | RLIMIT_STACK | RLIMIT_CORE
  | RLIMIT_NPROC | RLIMIT_NOFILE | RLIMIT_MEMLOCK | RLIMIT_AS

datatype sys =
    Printf string
  | Open string
  | Close string
  | Malloc nat
  | Mknod string
  | AddEntropy "byte list"
  | Tcgetattr string
  | Tcsetattr string
  | Chdir string
  | Mkdir string
  | MountSys string string string "64 word" "string option"
  | Chroot string
  | Setgid int
  | Setuid int
  | OpenTo nat string
  | Dup2 string nat
  | Setenv string string
  | Setrlimit rlimit_resource "64 word" "64 word"
  | Execv string "string list"
  | Sigprocmask bool
  | Sigaction
  | Clearenv
  | Pipe
  | Fork int
  | Waitpid int
  | Kill int signal
  | Sync
  | PowerOff
  | CallMount Mount
  | CallRun Run

datatype 'a outcome = Done 'a | Exited int | Image string "string list" | Blocked

type_synonym 'a step = "sys list \<times> 'a outcome"

definition and_then :: "'a step \<Rightarrow> ('a \<Rightarrow> 'b step) \<Rightarrow> 'b step" where
  "and_then m f =
     (case m of
        (t, Done v) \<Rightarrow> (case f v of (t', r) \<Rightarrow> (t @ t', r))
      | (t, Exited n) \<Rightarrow> (t, Exited n)
      | (t, Image p a) \<Rightarrow> (t, Image p a)
      | (t, Blocked) \<Rightarrow> (t, Blocked))"

text \<open>
  \<^verbatim>\<open>
  static void fail(const char *msg) {
    printf("umlbox: %s: %s\n", msg, strerror(errno));
    if (in_init) reboot(LINUX_REBOOT_CMD_POWER_OFF);
    exit(1);
  }
  #define MUST(msg, err, func, ...) ({ ret = func(...); if (ret == err) fail(msg); ret; })
  \<close>
  \<open>in_init\<close> is 1 in the supervisor and set to 0 in every child after \<open>fork\<close>. The
  message is kept without the text of \<open>strerror\<close>.
\<close>

definition fail :: "bool \<Rightarrow> string \<Rightarrow> 'a step" where
  "fail in_init msg =
     (Printf (''umlbox: '' @ msg) # (if in_init then [PowerOff] else []), Exited 1)"

definition must :: "(sys \<Rightarrow> bool) \<Rightarrow> bool \<Rightarrow> string \<Rightarrow> sys \<Rightarrow> unit step" where
  "must ok in_init msg call =
     (if ok call then ([call], Done ()) else and_then ([call], Done ()) (\<lambda>u. fail in_init msg))"

definition emit :: "sys list \<Rightarrow> unit step" where
  "emit t = (t, Done ())"

subsection \<open>\<open>handle_random\<close>, \<open>handle_tty_raw\<close>\<close>

definition handle_random :: "(sys \<Rightarrow> bool) \<Rightarrow> byte list \<Rightarrow> unit step" where
  "handle_random ok bs =
     and_then (must ok True ''mknod /random'' (Mknod ''/random'')) (\<lambda>u.
     and_then (must ok True ''open /random'' (Open ''/random'')) (\<lambda>u.
     and_then (must ok True ''malloc rand_pool_info'' (Malloc (8 + length bs))) (\<lambda>u.
     and_then (must ok True ''ioctl /random'' (AddEntropy bs)) (\<lambda>u.
     must ok True ''close /random'' (Close ''/random'')))))"

text \<open>
  \<^verbatim>\<open>
  printf("umlbox tty_raw: %s\n", dev);
  int fd = MUST("open tty_raw", -1, open, dev, O_RDWR);
  struct termios tio;
  MUST("tcgetattr", -1, tcgetattr, fd, &tio);
  cfmakeraw(&tio);
  MUST("tcsetattr", -1, tcsetattr, fd, TCSANOW, &tio);
  close(fd);
  \<close>
  \<open>cfmakeraw\<close> only changes the structure in memory.
\<close>

definition handle_tty_raw :: "(sys \<Rightarrow> bool) \<Rightarrow> string \<Rightarrow> unit step" where
  "handle_tty_raw ok dev =
     and_then (emit [Printf (''umlbox tty_raw: '' @ dev)]) (\<lambda>u.
     and_then (must ok True ''open tty_raw'' (Open dev)) (\<lambda>u.
     and_then (must ok True ''tcgetattr'' (Tcgetattr dev)) (\<lambda>u.
     and_then (must ok True ''tcsetattr'' (Tcsetattr dev)) (\<lambda>u.
     emit [Close dev]))))"

subsection \<open>\<open>mkdirs\<close> and \<open>handle_mount\<close>\<close>

text \<open>The fields of a string between occurrences of a separator, as the \<open>strchr\<close> loops
  of \<open>mkdirs\<close> cut them off: \<open>a//b/\<close> has the fields \<open>a\<close>, the empty one, \<open>b\<close>
  and the empty one.\<close>

fun sep_fields :: "char \<Rightarrow> string \<Rightarrow> string list" where
  "sep_fields sep [] = [[]]"
| "sep_fields sep (c # cs) =
     (if c = sep then [] # sep_fields sep cs
      else (case sep_fields sep cs of f # fs \<Rightarrow> (c # f) # fs | [] \<Rightarrow> [[c]]))"

text \<open>
  \<^verbatim>\<open>
  static void mkdirs(const char *dir) {
    MUST("chdir /", -1, chdir, "/");
    ... tail = buf;
    do {
      part = tail; slash = strchr(tail, '/');
      if (slash) { *slash = 0; tail = slash + 1; } else { tail = 0; }
      if (!*part) continue;
      mkdir(part, 0777);
      MUST("chdir", -1, chdir, part);
    } while (tail);
    MUST("chdir /", -1, chdir, "/");
  }
  \<close>
\<close>

fun mkdirs_parts :: "(sys \<Rightarrow> bool) \<Rightarrow> string list \<Rightarrow> unit step" where
  "mkdirs_parts ok [] = emit []"
| "mkdirs_parts ok (part # rest) =
     (if part = [] then mkdirs_parts ok rest
      else and_then (emit [Mkdir part]) (\<lambda>u.
           and_then (must ok True ''chdir'' (Chdir part)) (\<lambda>u.
           mkdirs_parts ok rest)))"

definition mkdirs :: "(sys \<Rightarrow> bool) \<Rightarrow> string \<Rightarrow> unit step" where
  "mkdirs ok dir =
     and_then (must ok True ''chdir /'' (Chdir ''/'')) (\<lambda>u.
     and_then (mkdirs_parts ok (sep_fields CHR ''/'' dir)) (\<lambda>u.
     must ok True ''chdir /'' (Chdir ''/'')))"

text \<open>
  \<^verbatim>\<open>
  static void handle_mount(const Mount *mnt) {
    char target[sizeof "/host/" + strlen(mnt->target)];
    snprintf(target, sizeof target, "/host%s%s", *mnt->target == '/' ? "" : "/", mnt->target);
    printf("umlbox mount: %s\n", target);
    unsigned long flags = 0;
    if (mnt->ro) flags |= MS_RDONLY;
    if (mnt->nosuid) flags |= MS_NOSUID;
    mkdirs(target);
    MUST("mount", -1, mount, mnt->source, target, mnt->fstype, flags,
         *mnt->data ? mnt->data : NULL);
  }
  \<close>
  \<open>sizeof "/host/"\<close> is 7, and \<open>snprintf\<close> writes at most one byte less than the size.
\<close>

definition MS_RDONLY :: "64 word" where "MS_RDONLY = 1"
definition MS_NOSUID :: "64 word" where "MS_NOSUID = 2"

definition mount_point :: "string \<Rightarrow> string" where
  "mount_point tgt =
     take (7 + length tgt - 1)
       (''/host'' @ (if tgt \<noteq> [] \<and> hd tgt = CHR ''/'' then [] else ''/'') @ tgt)"

definition mount_flags :: "Mount \<Rightarrow> 64 word" where
  "mount_flags mnt =
     (let flags = 0;
          flags = (if ro mnt then flags OR MS_RDONLY else flags);
          flags = (if nosuid mnt then flags OR MS_NOSUID else flags)
      in flags)"

definition handle_mount :: "(sys \<Rightarrow> bool) \<Rightarrow> Mount \<Rightarrow> unit step" where
  "handle_mount ok mnt =
     (let tgt = mount_point (target mnt) in
      and_then (emit [CallMount mnt, Printf (''umlbox mount: '' @ tgt)]) (\<lambda>u.
      and_then (mkdirs ok tgt) (\<lambda>u.
      must ok True ''mount''
        (MountSys (source mnt) tgt (fstype mnt) (mount_flags mnt)
           (if data mnt \<noteq> [] then Some (data mnt) else None)))))"

subsection \<open>\<open>hostify\<close> and \<open>set_limits\<close>\<close>

text \<open>
  \<^verbatim>\<open>
  static void hostify(const char *cwd, bool user, uid_t uid, gid_t gid) {
    MUST("chdir root", -1, chdir, "/host");
    MUST("chroot", -1, chroot, ".");
    if (*cwd) MUST("chdir cwd", -1, chdir, cwd);
    if (user) { MUST("setgid", -1, setgid, gid); MUST("setuid", -1, setuid, uid); }
  }
  \<close>
  It is called in the children only, where \<open>in_init\<close> is 0.
\<close>

definition hostify :: "(sys \<Rightarrow> bool) \<Rightarrow> string \<Rightarrow> bool \<Rightarrow> int \<Rightarrow> int \<Rightarrow> unit step" where
  "hostify ok dir usr u g =
     and_then (must ok False ''chdir root'' (Chdir ''/host'')) (\<lambda>x.
     and_then (must ok False ''chroot'' (Chroot ''.'')) (\<lambda>x.
     and_then (if dir \<noteq> [] then must ok False ''chdir cwd'' (Chdir dir) else emit []) (\<lambda>x.
     if usr then
       and_then (must ok False ''setgid'' (Setgid g)) (\<lambda>x.
       must ok False ''setuid'' (Setuid u))
     else emit [])))"

text \<open>
  \<^verbatim>\<open>
  static const struct { bool valid; int resource; } resource_map[] = {
    [LIMIT__RESOURCE__AS] = { true, RLIMIT_AS }, [LIMIT__RESOURCE__CORE] = { true, RLIMIT_CORE },
    [LIMIT__RESOURCE__CPU] = { true, RLIMIT_CPU }, [LIMIT__RESOURCE__DATA] = { true, RLIMIT_DATA },
    [LIMIT__RESOURCE__FSIZE] = { true, RLIMIT_FSIZE },
    [LIMIT__RESOURCE__MEMLOCK] = { true, RLIMIT_MEMLOCK },
    [LIMIT__RESOURCE__NOFILE] = { true, RLIMIT_NOFILE },
    [LIMIT__RESOURCE__NPROC] = { true, RLIMIT_NPROC },
    [LIMIT__RESOURCE__STACK] = { true, RLIMIT_STACK } };
  \<close>
  The indices are the numbers of the enum in \<open>config.proto\<close> (\<open>AS = 1\<close> to
  \<open>STACK = 9\<close>); entry 0, which no designator names, is zero: not valid, resource 0
  (\<open>RLIMIT_CPU\<close> on Linux).
\<close>

definition resource_map :: "(bool \<times> rlimit_resource) list" where
  "resource_map =
     [(False, RLIMIT_CPU), (True, RLIMIT_AS), (True, RLIMIT_CORE), (True, RLIMIT_CPU),
      (True, RLIMIT_DATA), (True, RLIMIT_FSIZE), (True, RLIMIT_MEMLOCK),
      (True, RLIMIT_NOFILE), (True, RLIMIT_NPROC), (True, RLIMIT_STACK)]"

definition n_resource_map :: int where
  "n_resource_map = int (length resource_map)"

definition RLIM_INFINITY :: "64 word" where
  "RLIM_INFINITY = - 1"

text \<open>
  \<^verbatim>\<open>
  for (size_t i = 0; i < n_limit; i++) {
    Limit *l = limit[i];
    if (l->resource < 0 || l->resource >= n_resource_map || !resource_map[l->resource].valid)
      errno = EINVAL, fail("set_limits");
    rlim.rlim_cur = l->soft >= 0 ? l->soft : RLIM_INFINITY;
    rlim.rlim_max = l->hard >= 0 ? l->hard : RLIM_INFINITY;
    MUST("setrlimit", -1, setrlimit, resource_map[l->resource].resource, &rlim);
  }
  \<close>
\<close>

definition rlim_of :: "64 word \<Rightarrow> 64 word" where
  "rlim_of v = (if 0 \<le> sint v then v else RLIM_INFINITY)"

fun set_limits :: "(sys \<Rightarrow> bool) \<Rightarrow> bool \<Rightarrow> Limit list \<Rightarrow> unit step" where
  "set_limits ok in_init [] = emit []"
| "set_limits ok in_init (l # ls) =
     (if resource l < 0 \<or> resource l \<ge> n_resource_map
         \<or> \<not> fst (resource_map ! nat (resource l))
      then fail in_init ''set_limits''
      else and_then
             (must ok in_init ''setrlimit''
                (Setrlimit (snd (resource_map ! nat (resource l)))
                   (rlim_of (soft l)) (rlim_of (hard l))))
             (\<lambda>u. set_limits ok in_init ls))"

subsection \<open>The child of \<open>handle_run\<close>: environment, limits and \<open>execv\<close>\<close>

definition DEFAULT_PATH :: string where
  "DEFAULT_PATH = ''/usr/local/bin:/bin:/usr/bin''"

definition DEFAULT_SHELL :: string where
  "DEFAULT_SHELL = ''/bin/bash''"

text \<open>\<open>strchr(s, c)\<close>: the offset of the first \<open>c\<close> in \<open>s\<close>, if there is one.\<close>

fun strchr :: "string \<Rightarrow> char \<Rightarrow> nat option" where
  "strchr [] c = None"
| "strchr (x # xs) c = (if x = c then Some 0 else map_option Suc (strchr xs c))"

text \<open>
  The process environment. \<open>main\<close> clears it and sets \<open>PATH\<close>, \<open>TERM\<close> and \<open>HOME\<close>;
  the child then does \<open>setenv(key, value, 1)\<close> for every \<open>EnvVar\<close> of the \<open>Run\<close>, whose
  result it ignores (\<open>setenv\<close> refuses an empty name and a name with \<open>=\<close> in it).
\<close>

definition init_environ :: "string \<rightharpoonup> string" where
  "init_environ = [''PATH'' \<mapsto> DEFAULT_PATH, ''TERM'' \<mapsto> ''linux'', ''HOME'' \<mapsto> ''/tmp'']"

definition setenv :: "(string \<rightharpoonup> string) \<Rightarrow> string \<Rightarrow> string \<Rightarrow> (string \<rightharpoonup> string)" where
  "setenv environ k v = (if k = [] \<or> CHR ''='' \<in> set k then environ else environ(k \<mapsto> v))"

definition setenv_all :: "(string \<rightharpoonup> string) \<Rightarrow> EnvVar list \<Rightarrow> (string \<rightharpoonup> string)" where
  "setenv_all environ vars = foldl (\<lambda>e x. setenv e (env_key x) (env_value x)) environ vars"

text \<open>
  \<^verbatim>\<open>
  char *cmd = run->cmd;  char *path = 0;
  if (strchr(cmd, '/') == 0) {
    path = getenv("PATH");
    if (!path) path = DEFAULT_PATH;
    cmd = MUST("malloc (cmd)", (void *) 0, malloc, strlen(path) + strlen(run->cmd) + 2);
  }
  int exec_errno = 0;
  do {
    if (path) {
      char *colon = strchr(path, ':');
      if (colon) { sprintf(cmd, "%.*s/%s", (int) (colon - path), path, run->cmd);
                   path = colon + 1; }
      else       { sprintf(cmd, "%s/%s", path, run->cmd); path += strlen(path); }
    }
    execv(cmd, argv + 1);
    if (errno == ENOEXEC) {
      argv[1] = cmd;
      execv(DEFAULT_SHELL, argv);
      if (exec_errno != EACCES) exec_errno = errno;
      break;
    }
    if (exec_errno != EACCES) exec_errno = errno;
  } while (path && *path);
  printf("%s? %s\n", run->cmd, strerror(exec_errno));
  exit(1);
  \<close>
  \<open>argv\<close> is \<open>DEFAULT_SHELL, run->cmd, run->arg..., 0\<close>. \<open>execv\<close> returns only when it
  fails: the parameter \<open>execv\<close> gives the errno of a failure, \<open>None\<close> when the image is
  executed. \<open>exec_errno\<close> is \<open>None\<close> for 0.
\<close>

definition strerror :: "errno option \<Rightarrow> string" where
  "strerror e =
     (case e of
        None \<Rightarrow> ''Success''
      | Some ENOEXEC \<Rightarrow> ''Exec format error''
      | Some EACCES \<Rightarrow> ''Permission denied''
      | Some ENOENT \<Rightarrow> ''No such file or directory''
      | Some EINVAL \<Rightarrow> ''Invalid argument''
      | Some EPIPE \<Rightarrow> ''Broken pipe''
      | Some EINTR \<Rightarrow> ''Interrupted system call''
      | Some EIO \<Rightarrow> ''Input/output error''
      | Some ECHILD \<Rightarrow> ''No child processes'')"

definition report :: "string \<Rightarrow> errno option \<Rightarrow> unit step" where
  "report rcmd exec_errno = ([Printf (rcmd @ ''? '' @ strerror exec_errno)], Exited 1)"

definition keep_eacces :: "errno option \<Rightarrow> errno \<Rightarrow> errno option" where
  "keep_eacces exec_errno e = (if exec_errno \<noteq> Some EACCES then Some e else exec_errno)"

definition next_candidate :: "string \<Rightarrow> string \<Rightarrow> string option \<Rightarrow> string \<times> string option" where
  "next_candidate rcmd cmd0 path =
     (case path of
        None \<Rightarrow> (cmd0, None)
      | Some p \<Rightarrow>
          (case strchr p CHR '':'' of
             Some k \<Rightarrow> (take k p @ ''/'' @ rcmd, Some (drop (Suc k) p))
           | None \<Rightarrow> (p @ ''/'' @ rcmd, Some [])))"

lemma strchr_less: "strchr p c = Some k \<Longrightarrow> k < length p"
  by (induction p arbitrary: k) (auto split: if_splits)

lemma next_candidate_shorter:
  "next_candidate rcmd cmd0 path = (cmd1, Some p1) \<Longrightarrow> p1 \<noteq> [] \<Longrightarrow>
     \<exists>p. path = Some p \<and> length p1 < length p"
  by (auto simp: next_candidate_def dest: strchr_less split: option.splits)

function exec_loop ::
  "(string \<Rightarrow> string list \<Rightarrow> errno option) \<Rightarrow> string \<Rightarrow> string list \<Rightarrow> string
     \<Rightarrow> string option \<Rightarrow> errno option \<Rightarrow> unit step" where
  "exec_loop execv rcmd args cmd0 path exec_errno =
     (case next_candidate rcmd cmd0 path of
        (cmd1, path1) \<Rightarrow>
          (case execv cmd1 (rcmd # args) of
             None \<Rightarrow> ([Execv cmd1 (rcmd # args)], Image cmd1 (rcmd # args))
           | Some e \<Rightarrow>
               if e = ENOEXEC then
                 (case execv DEFAULT_SHELL (DEFAULT_SHELL # cmd1 # args) of
                    None \<Rightarrow>
                      ([Execv cmd1 (rcmd # args), Execv DEFAULT_SHELL (DEFAULT_SHELL # cmd1 # args)],
                       Image DEFAULT_SHELL (DEFAULT_SHELL # cmd1 # args))
                  | Some e2 \<Rightarrow>
                      and_then
                        (emit [Execv cmd1 (rcmd # args),
                               Execv DEFAULT_SHELL (DEFAULT_SHELL # cmd1 # args)])
                        (\<lambda>u. report rcmd (keep_eacces exec_errno e2)))
               else
                 and_then (emit [Execv cmd1 (rcmd # args)])
                   (\<lambda>u. case path1 of
                          Some p1 \<Rightarrow>
                            if p1 \<noteq> [] then
                              exec_loop execv rcmd args cmd1 (Some p1) (keep_eacces exec_errno e)
                            else report rcmd (keep_eacces exec_errno e)
                        | None \<Rightarrow> report rcmd (keep_eacces exec_errno e))))"
  by pat_completeness auto
termination
  apply (relation "measure (\<lambda>(execv, rcmd, args, cmd0, path, exec_errno).
                     case path of None \<Rightarrow> 0 | Some p \<Rightarrow> length p)")
   apply simp
  apply clarsimp
  apply (drule sym)
  apply (drule next_candidate_shorter)
   apply auto
  done

declare exec_loop.simps [simp del]

definition search_path :: "(string \<rightharpoonup> string) \<Rightarrow> string" where
  "search_path environ = (case environ ''PATH'' of Some p \<Rightarrow> p | None \<Rightarrow> DEFAULT_PATH)"

definition exec_search ::
  "(sys \<Rightarrow> bool) \<Rightarrow> (string \<Rightarrow> string list \<Rightarrow> errno option) \<Rightarrow> (string \<rightharpoonup> string)
     \<Rightarrow> Run \<Rightarrow> unit step" where
  "exec_search ok execv environ r =
     (if strchr (cmd r) CHR ''/'' = None then
        (let path = search_path environ in
         and_then
           (must ok False ''malloc (cmd)'' (Malloc (length path + length (cmd r) + 2)))
           (\<lambda>u. exec_loop execv (cmd r) (arg r) [] (Some path) None))
      else exec_loop execv (cmd r) (arg r) (cmd r) None None)"

text \<open>
  \<^verbatim>\<open>
  static void open_to(int new_fd, const char *path, int flags, int fallback_fd) {
    int fd = fallback_fd;
    bool do_open = path && *path;
    if (do_open) fd = MUST("open", -1, open, path, flags);
    if (fd != -1 && fd != new_fd) {
      MUST("dup2", -1, dup2, fd, new_fd);
      if (do_open) close(fd);
    }
  }
  \<close>
  A null and an empty path are both the empty string here; the fallback is \<open>None\<close> for -1.
  The descriptor \<open>open\<close> returns is taken to differ from \<open>new_fd\<close>, which is open.
\<close>

definition open_to :: "(sys \<Rightarrow> bool) \<Rightarrow> bool \<Rightarrow> nat \<Rightarrow> string \<Rightarrow> nat option \<Rightarrow> unit step" where
  "open_to ok in_init new_fd path fallback_fd =
     (if path \<noteq> [] then
        and_then (must ok in_init ''open'' (Open path)) (\<lambda>u.
        and_then (must ok in_init ''dup2'' (Dup2 path new_fd)) (\<lambda>u.
        emit [Close path]))
      else
        (case fallback_fd of
           None \<Rightarrow> emit []
         | Some fd \<Rightarrow>
             if fd \<noteq> new_fd then must ok in_init ''dup2'' (Dup2 ''fallback'' new_fd)
             else emit []))"

text \<open>
  The child of \<open>handle_run\<close>, from \<open>if (child == 0) {\<close> on: standard streams, the
  environment of the \<open>Run\<close>, \<open>hostify\<close>, \<open>set_limits\<close>, then the search for the
  executable. The pipe's descriptors are taken to be above 2.
\<close>

definition or_null :: "string \<Rightarrow> string" where
  "or_null p = (if p \<noteq> [] then p else ''/null'')"

definition child_main ::
  "(sys \<Rightarrow> bool) \<Rightarrow> (string \<Rightarrow> string list \<Rightarrow> errno option) \<Rightarrow> Run \<Rightarrow> int \<Rightarrow> int \<Rightarrow> bool
     \<Rightarrow> unit step" where
  "child_main ok execv r u g has_cat =
     and_then (open_to ok False 0 (or_null (run_input r)) None) (\<lambda>x.
     and_then
       (if has_cat then
          and_then (must ok False ''dup2 (cat -> out)'' (Dup2 ''cat_pipe[1]'' 1)) (\<lambda>x.
          and_then (must ok False ''dup2 (cat -> err)'' (Dup2 ''cat_pipe[1]'' 2)) (\<lambda>x.
          emit [Close ''cat_pipe[0]'', Close ''cat_pipe[1]'']))
        else
          and_then (open_to ok False 1 (or_null (run_output r)) None) (\<lambda>x.
          open_to ok False 2 (run_error r) (Some 1))) (\<lambda>x.
     and_then (emit (map (\<lambda>v. Setenv (env_key v) (env_value v)) (env r))) (\<lambda>x.
     and_then (hostify ok (cwd r) (user r) u g) (\<lambda>x.
     and_then (set_limits ok False (limit r)) (\<lambda>x.
     and_then (must ok False ''malloc argv'' (Malloc ((length (arg r) + 3) * 8))) (\<lambda>x.
     exec_search ok execv (setenv_all init_environ (env r)) r))))))"


subsection \<open>\<open>handle_run\<close>: the supervisor's side\<close>

text \<open>
  What the kernel tells the supervisor while it waits, one item for each turn of the loop:
  \<open>waitpid(-1, 0, WNOHANG)\<close> returned a pid (\<open>Reaped\<close>) or -1 (\<open>WaitFailed\<close>); or it
  returned 0 and \<open>ppoll\<close> on descriptor 0 was interrupted (\<open>PollInterrupted\<close>), failed
  otherwise (\<open>PollFailed\<close>), or returned and the \<open>read\<close> of the control bytes failed
  (\<open>ReadFailed\<close>) or left the byte \<open>c\<close> in \<open>hard_timeout[0]\<close> (\<open>Control c k\<close>, with
  \<open>k\<close> saying whether a \<open>kill\<close> made in this turn succeeds). When the list is used up
  nothing more ever happens and \<open>ppoll\<close>, which has no timeout, does not return. Of the
  calls of the loop the trace keeps those that change which processes there are: a
  \<open>waitpid\<close> that has reaped the process \<open>p\<close> (\<open>Waitpid p\<close>) and the \<open>kill\<close>.

  \<^verbatim>\<open>
  bool timed_out = false;
  bool child_running = 1, cat_running = run->cat_output;
  while (true) {
    pid_t waited = waitpid(-1, 0, WNOHANG);
    if (waited == -1) fail("wait");
    if (waited != 0) {
      if (waited == child) child_running = false;
      if (waited == cat) cat_running = false;
      if (!child_running && !cat_running) break;
      continue;
    }
    int ret = ppoll(&timeout_fd, 1, 0, &orig_mask);
    if (ret == -1 && errno == EINTR) continue;
    if (ret == -1) fail("poll (timeout signal)");
    unsigned char hard_timeout[2];
    MUST("read (timeout signal)", -1, read, 0, hard_timeout, 2);
    timed_out = true;
    if (*hard_timeout == 'Y') break;
    if (child_running) MUST("kill", -1, kill, child, SIGTERM);
  }
  \<close>
\<close>

datatype wait_event =
  Reaped int | WaitFailed | PollInterrupted | PollFailed | ReadFailed | Control char bool

fun wait_loop :: "int \<Rightarrow> int option \<Rightarrow> bool \<Rightarrow> bool \<Rightarrow> bool \<Rightarrow> wait_event list \<Rightarrow> bool step" where
  "wait_loop child cat child_running cat_running timed_out [] = ([], Blocked)"
| "wait_loop child cat child_running cat_running timed_out (Reaped waited # es) =
     (let child_running = (if waited = child then False else child_running);
          cat_running = (if Some waited = cat then False else cat_running)
      in if \<not> child_running \<and> \<not> cat_running then ([Waitpid waited], Done timed_out)
         else and_then (emit [Waitpid waited])
                (\<lambda>u. wait_loop child cat child_running cat_running timed_out es))"
| "wait_loop child cat child_running cat_running timed_out (WaitFailed # es) =
     fail True ''wait''"
| "wait_loop child cat child_running cat_running timed_out (PollInterrupted # es) =
     wait_loop child cat child_running cat_running timed_out es"
| "wait_loop child cat child_running cat_running timed_out (PollFailed # es) =
     fail True ''poll (timeout signal)''"
| "wait_loop child cat child_running cat_running timed_out (ReadFailed # es) =
     fail True ''read (timeout signal)''"
| "wait_loop child cat child_running cat_running timed_out (Control c kill_ok # es) =
     (if c = CHR ''Y'' then ([], Done True)
      else if child_running then
        (if kill_ok then
           and_then (emit [Kill child SIGTERM])
             (\<lambda>u. wait_loop child cat child_running cat_running True es)
         else and_then (emit [Kill child SIGTERM]) (\<lambda>u. fail True ''kill''))
      else wait_loop child cat child_running cat_running True es)"

text \<open>
  What else the kernel decides for one \<open>handle_run\<close>: the two values of \<open>random()\<close>, the
  results of the two \<open>fork\<close>s as the supervisor sees them (\<open>None\<close> for -1) and the events
  of the wait.
\<close>

record run_env =
  rand_uid :: int
  rand_gid :: int
  cat_fork :: "int option"
  child_fork :: "int option"
  waits :: "wait_event list"

definition derive_ids :: "run_env \<Rightarrow> Run \<Rightarrow> int \<times> int" where
  "derive_ids re r =
     (let u = uid r mod 2 ^ 32; g = gid r mod 2 ^ 32 in
      if user r then
        (if u = 0 then rand_uid re mod 995000 + 5000 else u,
         if g = 0 then rand_gid re mod 995000 + 5000 else g)
      else (u, g))"

definition must_fork :: "int option \<Rightarrow> int step" where
  "must_fork res =
     (case res of
        None \<Rightarrow> and_then (emit [Fork (- 1)]) (\<lambda>u. fail True ''fork'')
      | Some pid \<Rightarrow> ([Fork pid], Done pid))"

definition handle_run :: "(sys \<Rightarrow> bool) \<Rightarrow> run_env \<Rightarrow> Run \<Rightarrow> bool step" where
  "handle_run ok re r =
     and_then (emit [CallRun r, Printf (''umlbox run: '' @ cmd r)]) (\<lambda>x.
     and_then (must ok True ''sigprocmask (block SIGCHLD)'' (Sigprocmask True)) (\<lambda>x.
     and_then
       (if cat_output r then
          and_then (must ok True ''pipe (cat)'' Pipe) (\<lambda>x.
          and_then (must_fork (cat_fork re)) (\<lambda>pid. ([], Done (Some pid))))
        else ([], Done None)) (\<lambda>cat.
     and_then (must_fork (child_fork re)) (\<lambda>child.
     if daemon r then
       and_then (must ok True ''sigprocmask (unblock SIGCHLD)'' (Sigprocmask False)) (\<lambda>x.
       ([], Done False))
     else
       and_then (emit (if cat \<noteq> None then [Close ''cat_pipe[0]'', Close ''cat_pipe[1]''] else []))
         (\<lambda>x.
       and_then (wait_loop child cat True (cat_output r) False (waits re)) (\<lambda>timed_out.
       and_then (must ok True ''sigprocmask (unblock SIGCHLD)'' (Sigprocmask False)) (\<lambda>x.
       ([], Done timed_out))))))))"

subsection \<open>\<open>main\<close>: reading the configuration image and carrying it out\<close>

text \<open>
  The rest of what the kernel and the C library decide for the supervisor: which calls
  succeed, what the header array on the stack and a fresh \<open>malloc\<close> block hold before they
  are written, what \<open>config__unpack\<close> (generated by protobuf-c from \<open>config.proto\<close>)
  makes of a payload, and the events of each \<open>Run\<close> by its index.
\<close>

record guest_env =
  sys_ok :: "sys \<Rightarrow> bool"
  stack_junk :: "byte list"
  heap_junk :: "byte list"
  config_unpack :: "byte list \<Rightarrow> Config option"
  run_envs :: "nat \<Rightarrow> run_env"

definition junk_buf :: "byte list \<Rightarrow> nat \<Rightarrow> byte list" where
  "junk_buf junk n = take n (junk @ replicate n 0)"

text \<open>A \<open>uint32_t\<close> read from four bytes of memory, least significant first.\<close>

definition le32 :: "byte list \<Rightarrow> uint32_t" where
  "le32 bs = word_of_nat (foldr (\<lambda>b n. unat b + 256 * n) bs 0)"

text \<open>\<open>MUST\<close> with the error value \<open>-1\<close> keeps the result in an \<open>int\<close>.\<close>

definition c_int :: "int \<Rightarrow> int" where
  "c_int v = sint (word_of_int v :: 32 word)"

text \<open>
  \<^verbatim>\<open>
  static void dump_config(uint32_t len, const Config *cfg) {
    printf("umlbox config: %u bytes:\n", len);
    for (...) printf("- tty_raw: %s\n", cfg->tty_raw[i]);
    for (...) {
      const Mount *m = cfg->mount[i];
      printf("- mount: %s ('%s', '%s', '%s', %d, %d)\n",
             m->target, m->source, m->fstype, m->data, m->ro, m->nosuid);
    }
    for (...) printf("- run: %s\n", cfg->run[i]->cmd);
  }
  \<close>
  \<open>%u\<close> and \<open>%d\<close> print a number in decimal; a \<open>protobuf_c_boolean\<close> is 0 or 1. A
  \<open>Printf\<close> holds the line without its newline.
\<close>

function show_nat :: "nat \<Rightarrow> string" where
  "show_nat n =
     (if n < 10 then [char_of (48 + n)] else show_nat (n div 10) @ [char_of (48 + n mod 10)])"
  by pat_completeness auto

termination
  by (relation "measure id") simp_all

declare show_nat.simps [simp del]

definition show_bool :: "bool \<Rightarrow> string" where
  "show_bool b = (if b then ''1'' else ''0'')"

definition dump_config :: "nat \<Rightarrow> Config \<Rightarrow> sys list" where
  "dump_config len cfg =
     Printf (''umlbox config: '' @ show_nat len @ '' bytes:'')
     # map (\<lambda>d. Printf (''- tty_raw: '' @ d)) (tty_raw cfg)
     @ map (\<lambda>m. Printf (''- mount: '' @ target m @ '' ('' @ [CHR 0x27] @ source m
                          @ [CHR 0x27] @ '', '' @ [CHR 0x27] @ fstype m @ [CHR 0x27] @ '', ''
                          @ [CHR 0x27] @ data m @ [CHR 0x27] @ '', '' @ show_bool (ro m) @ '', ''
                          @ show_bool (nosuid m) @ '')'')) (mount cfg)
     @ map (\<lambda>r. Printf (''- run: '' @ cmd r)) (run cfg)"

text \<open>
  \<^verbatim>\<open>
  uint32_t hdr[2];
  MUST("read /ubda header", -1, readall, fd, hdr, sizeof hdr);
  if (hdr[0] != 0xdeadbeefu) {
    printf("unexpected header: %#08x != 0xdeadbeef\n", (unsigned) hdr[0]);
    errno = EINVAL, fail("bad /ubda header");
  }
  uint8_t *data = MUST("malloc config", (void *) 0, malloc, hdr[1]);
  MUST("read config", -1, readall, fd, data, hdr[1]);
  cfg = config__unpack(0, hdr[1], data);
  if (!cfg) errno = EINVAL, fail("bad config");
  close(fd);
  dump_config(hdr[1], cfg);
  \<close>
\<close>

definition read_config :: "guest_env \<Rightarrow> fd_state \<Rightarrow> Config step" where
  "read_config ge fd =
     (case readall fd (junk_buf (stack_junk ge) 8) 8 of
        (ret, e, hdr, at, fd1) \<Rightarrow>
          if c_int ret = - 1 then fail True ''read /ubda header''
          else if le32 (take 4 hdr) \<noteq> 0xdeadbeef then
            and_then (emit [Printf ''unexpected header'']) (\<lambda>u. fail True ''bad /ubda header'')
          else
            (let n = le32 (take 4 (drop 4 hdr)) in
             and_then (must (sys_ok ge) True ''malloc config'' (Malloc (unat n))) (\<lambda>u.
             case readall fd1 (junk_buf (heap_junk ge) (unat n)) (ucast n) of
               (ret2, e2, dat, at2, fd2) \<Rightarrow>
                 if c_int ret2 = - 1 then fail True ''read config''
                 else
                   (case config_unpack ge (take (unat n) dat) of
                      None \<Rightarrow> fail True ''bad config''
                    | Some cfg \<Rightarrow> (Close ''/ubda'' # dump_config (unat n) cfg, Done cfg)))))"

text \<open>The start of \<open>main\<close>: device nodes, standard streams, environment, \<open>/host\<close>, the
  \<open>SIGCHLD\<close> handler.\<close>

definition tty_names :: "string list" where
  "tty_names = [''/tty1'', ''/tty2'', ''/tty3'', ''/tty4'', ''/tty5'', ''/tty6'', ''/tty7'',
                ''/tty8'', ''/tty9'', ''/tty10'', ''/tty11'', ''/tty12'', ''/tty13'',
                ''/tty14'', ''/tty15'']"

fun for_each :: "('a \<Rightarrow> unit step) \<Rightarrow> 'a list \<Rightarrow> unit step" where
  "for_each f [] = emit []"
| "for_each f (x # xs) = and_then (f x) (\<lambda>u. for_each f xs)"

definition bootstrap :: "(sys \<Rightarrow> bool) \<Rightarrow> unit step" where
  "bootstrap ok =
     and_then (must ok True ''mknod /console'' (Mknod ''/console'')) (\<lambda>u.
     and_then (open_to ok True 0 ''/console'' None) (\<lambda>u.
     and_then (open_to ok True 1 ''/console'' None) (\<lambda>u.
     and_then (open_to ok True 2 ''/console'' None) (\<lambda>u.
     and_then (emit [Printf ''umlbox init'']) (\<lambda>u.
     and_then (must ok True ''mknod /ubda'' (Mknod ''/ubda'')) (\<lambda>u.
     and_then (must ok True ''mknod /null'' (Mknod ''/null'')) (\<lambda>u.
     and_then (for_each (\<lambda>dev. must ok True ''mknod /ttyN'' (Mknod dev)) tty_names) (\<lambda>u.
     and_then (must ok True ''clearenv'' Clearenv) (\<lambda>u.
     and_then (emit [Setenv ''PATH'' DEFAULT_PATH, Setenv ''TERM'' ''linux'',
                     Setenv ''HOME'' ''/tmp'']) (\<lambda>u.
     and_then (must ok True ''mkdir /host'' (Mkdir ''/host'')) (\<lambda>u.
     must ok True ''sigaction'' Sigaction)))))))))))"

text \<open>
  \<^verbatim>\<open>
  for (size_t i = 0; i < cfg->n_run; i++) {
    bool timed_out = handle_run(cfg->run[i]);
    if (timed_out) break;
  }
  \<close>
\<close>

fun run_loop :: "(sys \<Rightarrow> bool) \<Rightarrow> (nat \<Rightarrow> run_env) \<Rightarrow> nat \<Rightarrow> Run list \<Rightarrow> unit step" where
  "run_loop ok re i [] = emit []"
| "run_loop ok re i (r # rs) =
     and_then (handle_run ok (re i) r)
       (\<lambda>timed_out. if timed_out then emit [] else run_loop ok re (Suc i) rs)"

text \<open>
  \<^verbatim>\<open>
  if (cfg->random.len > 0) handle_random(cfg->random.len, cfg->random.data);
  for (...) handle_tty_raw(cfg->tty_raw[i]);
  for (...) handle_mount(cfg->mount[i]);
  for (...) { bool timed_out = handle_run(cfg->run[i]); if (timed_out) break; }
  sync();
  reboot(LINUX_REBOOT_CMD_POWER_OFF);
  return 0;
  \<close>
\<close>

definition prepare :: "guest_env \<Rightarrow> Config \<Rightarrow> unit step" where
  "prepare ge cfg =
     and_then (if length (random cfg) > 0 then handle_random (sys_ok ge) (random cfg)
               else emit []) (\<lambda>u.
     and_then (for_each (handle_tty_raw (sys_ok ge)) (tty_raw cfg)) (\<lambda>u.
     for_each (handle_mount (sys_ok ge)) (mount cfg)))"

definition execute_config :: "guest_env \<Rightarrow> Config \<Rightarrow> unit step" where
  "execute_config ge cfg =
     and_then (prepare ge cfg) (\<lambda>u.
     and_then (run_loop (sys_ok ge) (run_envs ge) 0 (run cfg)) (\<lambda>u.
     ([Sync, PowerOff], Exited 0)))"

definition main :: "guest_env \<Rightarrow> fd_state \<Rightarrow> unit step" where
  "main ge ubda =
     and_then (bootstrap (sys_ok ge)) (\<lambda>u.
     and_then (must (sys_ok ge) True ''open /ubda'' (Open ''/ubda'')) (\<lambda>u.
     and_then (read_config ge ubda) (\<lambda>cfg.
     execute_config ge cfg)))"

section \<open>The host: the image and the timeout (\<open>umlbox\<close>, \<open>main\<close>)\<close>

text \<open>
  \<^verbatim>\<open>
  cfg = cfg.SerializeToString()
  cfg = struct.pack('=LL', 0xdeadbeef, len(cfg)) + cfg
  if len(cfg) % 512 != 0:  # ubd file must be padded to block boundary
      cfg += b'\0' * (512 - len(cfg) % 512)
  \<close>
  \<open>SerializeToString\<close> is the protobuf library's: a parameter. \<open>struct.pack\<close> with
  \<open>=L\<close> writes four bytes in the machine's order (least significant first on the machines
  the guest runs on) and raises \<open>struct.error\<close> for a number that does not fit, which is
  \<open>None\<close> here.
\<close>

definition pack32 :: "nat \<Rightarrow> byte list" where
  "pack32 n = [of_nat (n mod 256), of_nat (n div 256 mod 256),
               of_nat (n div 65536 mod 256), of_nat (n div 16777216 mod 256)]"

definition encode_image :: "(Config \<Rightarrow> byte list) \<Rightarrow> Config \<Rightarrow> byte list option" where
  "encode_image serialize c =
     (let cfg = serialize c in
      if length cfg < 2 ^ 32 then
        (let cfg = pack32 0xdeadbeef @ pack32 (length cfg) @ cfg;
             cfg = (if length cfg mod 512 \<noteq> 0
                    then cfg @ replicate (512 - length cfg mod 512) 0 else cfg)
         in Some cfg)
      else None)"

text \<open>The image file behind \<open>/ubda\<close>: a block device, whose \<open>read\<close> delivers all that
  is asked for and is there.\<close>

definition image_fd :: "byte list \<Rightarrow> fd_state" where
  "image_fd img = \<lparr>pending = img, sched = []\<rparr>"

text \<open>
  \<^verbatim>\<open>
  uml = subprocess.Popen(cmd, ..., start_new_session=True)
  if not args.timeout:
      uml.wait()
  else:
      try: uml.wait(timeout=args.timeout)
      except subprocess.TimeoutExpired: pass
      if uml.returncode is None:
          os.write(ctrl_w, b'N\n')  # soft timeout
          try: uml.wait(timeout=5)
          except subprocess.TimeoutExpired: pass
      if uml.returncode is None:
          os.write(ctrl_w, b'Y\n')  # hard timeout
          try: uml.wait(timeout=5)
          except subprocess.TimeoutExpired: pass
      if uml.returncode is None:
          os.killpg(uml.pid, signal.SIGKILL)  # hardest timeout
          uml.wait()
  \<close>
  The guest decides when it exits: \<open>exits k\<close> is what the \<open>k\<close>-th call of \<open>wait\<close> finds,
  the exit status or \<open>None\<close> when the time is up first. \<open>ctrl_w\<close> is a pipe only if
  \<open>args.timeout > 0\<close>; otherwise it is \<open>None\<close> and \<open>os.write\<close> raises, which is the
  result \<open>None\<close> here.
\<close>

datatype host_call = WaitFor "int option" | WriteCtl string | Killpg signal

record host =
  returncode :: "int option"
  calls :: "host_call list"
  waits_done :: nat

definition uml_wait :: "(nat \<Rightarrow> int option) \<Rightarrow> int option \<Rightarrow> host \<Rightarrow> host" where
  "uml_wait exits tmo h =
     h\<lparr>returncode := exits (waits_done h), calls := calls h @ [WaitFor tmo],
       waits_done := Suc (waits_done h)\<rparr>"

definition os_write :: "bool \<Rightarrow> string \<Rightarrow> host \<Rightarrow> host option" where
  "os_write ctrl_w token h = (if ctrl_w then Some (h\<lparr>calls := calls h @ [WriteCtl token]\<rparr>) else None)"

definition soft_token :: string where "soft_token = [CHR ''N'', CHR 0x0A]"
definition hard_token :: string where "hard_token = [CHR ''Y'', CHR 0x0A]"

definition stage :: "(nat \<Rightarrow> int option) \<Rightarrow> bool \<Rightarrow> string \<Rightarrow> host \<Rightarrow> host option" where
  "stage exits ctrl_w token h =
     (if returncode h = None
      then map_option (uml_wait exits (Some 5)) (os_write ctrl_w token h)
      else Some h)"

definition supervise :: "int \<Rightarrow> (nat \<Rightarrow> int option) \<Rightarrow> host option" where
  "supervise timeout exits =
     (let h = \<lparr>returncode = None, calls = [], waits_done = 0\<rparr>; ctrl_w = (timeout > 0) in
      if timeout = 0 then Some (uml_wait exits None h)
      else
        (case stage exits ctrl_w soft_token (uml_wait exits (Some timeout) h) of
           None \<Rightarrow> None
         | Some h \<Rightarrow>
             (case stage exits ctrl_w hard_token h of
                None \<Rightarrow> None
              | Some h \<Rightarrow>
                  if returncode h = None
                  then Some (uml_wait exits None (h\<lparr>calls := calls h @ [Killpg SIGKILL]\<rparr>))
                  else Some h)))"

section \<open>Notions and examples the properties are stated with\<close>

text \<open>Every entry of the host's dictionary is filed under its own target.\<close>

definition keyed :: "(pystr \<times> PyMount) list \<Rightarrow> bool" where
  "keyed d = list_all (\<lambda>(k, m). target m = k) d"

text \<open>The calls of \<open>mount\<close> and of \<open>execv\<close> among the calls of a process.\<close>

fun is_mount_sys :: "sys \<Rightarrow> bool" where
  "is_mount_sys (MountSys s t f g d) = True"
| "is_mount_sys c = False"

fun is_execv :: "sys \<Rightarrow> bool" where
  "is_execv (Execv p a) = True"
| "is_execv c = False"

text \<open>A step is quiet when it makes no \<open>execv\<close> and either returns or exits with
  status 1; it dies when it makes no \<open>execv\<close> and exits with status 1.\<close>

definition quiet :: "'a step \<Rightarrow> bool" where
  "quiet m = (filter is_execv (fst m) = [] \<and> (snd m = Exited 1 \<or> (\<exists>v. snd m = Done v)))"

definition dies :: "'a step \<Rightarrow> bool" where
  "dies m = (filter is_execv (fst m) = [] \<and> snd m = Exited 1)"

text \<open>An example \<open>Run\<close>, \<open>ls -l\<close> in \<open>/tmp\<close> as user 1000, with given limits.\<close>

definition example_run :: "Limit list \<Rightarrow> Run" where
  "example_run ls =
     \<lparr>daemon = False, cmd = ''ls'', arg = [''-l''], cwd = ''/tmp'', run_input = [],
      run_output = ''/tty1'', run_error = [], cat_output = False, env = [], user = True,
      uid = 1000, gid = 1000, limit = ls\<rparr>"

text \<open>
  The entries of a \<open>PATH\<close>, as the specification speaks of them: the pieces between the
  colons, in order. A colon at the very end closes the last entry and opens no further,
  empty one (the loop stops at the end of the string); an empty entry anywhere else counts.
  The candidate for an entry is the entry, a slash and the command name.
\<close>

definition path_entries :: "string \<Rightarrow> string list" where
  "path_entries p =
     (if p \<noteq> [] \<and> last p = CHR '':'' then butlast (sep_fields CHR '':'' p)
      else sep_fields CHR '':'' p)"

definition candidate :: "string \<Rightarrow> string \<Rightarrow> string" where
  "candidate rcmd d = d @ ''/'' @ rcmd"

text \<open>
  The search as the specification words it, over the list of entries: try each candidate in
  order; the first one that is executed ends the search; the first one that is not an
  executable image (\<open>ENOEXEC\<close>) is handed to the default shell, once, with the
  arguments of the \<open>Run\<close>, and that ends the search too; when every entry has failed
  otherwise, the error is printed and the child exits with status 1.
\<close>

fun try_entries ::
  "(string \<Rightarrow> string list \<Rightarrow> errno option) \<Rightarrow> string \<Rightarrow> string list \<Rightarrow> errno option
     \<Rightarrow> string list \<Rightarrow> unit step" where
  "try_entries execv rcmd args exec_errno [] = report rcmd exec_errno"
| "try_entries execv rcmd args exec_errno (d # ds) =
     (let cand = candidate rcmd d in
      case execv cand (rcmd # args) of
        None \<Rightarrow> ([Execv cand (rcmd # args)], Image cand (rcmd # args))
      | Some e \<Rightarrow>
          if e = ENOEXEC then
            (case execv DEFAULT_SHELL (DEFAULT_SHELL # cand # args) of
               None \<Rightarrow>
                 ([Execv cand (rcmd # args), Execv DEFAULT_SHELL (DEFAULT_SHELL # cand # args)],
                  Image DEFAULT_SHELL (DEFAULT_SHELL # cand # args))
             | Some e2 \<Rightarrow>
                 and_then
                   (emit [Execv cand (rcmd # args),
                          Execv DEFAULT_SHELL (DEFAULT_SHELL # cand # args)])
                   (\<lambda>u. report rcmd (keep_eacces exec_errno e2)))
          else
            and_then (emit [Execv cand (rcmd # args)])
              (\<lambda>u. try_entries execv rcmd args (keep_eacces exec_errno e) ds))"

text \<open>Three kernels for the example \<open>ls -l\<close>: \<open>/bin/ls\<close> is a script without an
  interpreter line, \<open>/bin/ls\<close> is a binary, and there is no \<open>ls\<close> anywhere.\<close>

definition execv_script :: "string \<Rightarrow> string list \<Rightarrow> errno option" where
  "execv_script p a =
     (if p = ''/usr/local/bin/ls'' then Some ENOENT
      else if p = ''/bin/ls'' then Some ENOEXEC else None)"

definition execv_binary :: "string \<Rightarrow> string list \<Rightarrow> errno option" where
  "execv_binary p a = (if p = ''/usr/local/bin/ls'' then Some ENOENT else None)"

text \<open>The Runs that \<open>handle_run\<close> has been called for, in order.\<close>

fun called_runs :: "sys list \<Rightarrow> Run list" where
  "called_runs [] = []"
| "called_runs (CallRun r # t) = r # called_runs t"
| "called_runs (c # t) = called_runs t"

definition no_run :: "'a step \<Rightarrow> bool" where
  "no_run m = (called_runs (fst m) = [])"

text \<open>An example: three foreground Runs \<open>ip\<close>, \<open>ls\<close> and \<open>date\<close>; the first is reaped at
  once, the second gets the soft token and is reaped after the \<open>SIGTERM\<close>.\<close>

definition named_run :: "string \<Rightarrow> Run" where
  "named_run c = (example_run []) \<lparr>cmd := c\<rparr>"

definition example_cfg :: Config where
  "example_cfg = \<lparr>tty_raw = [], mount = [],
      run = [named_run ''ip'', named_run ''ls'', named_run ''date''], random = []\<rparr>"

definition example_env :: "wait_event list \<Rightarrow> guest_env" where
  "example_env second =
     \<lparr>sys_ok = (\<lambda>c. True), stack_junk = [], heap_junk = [], config_unpack = (\<lambda>bs. None),
      run_envs = (\<lambda>i. \<lparr>rand_uid = 7, rand_gid = 7, cat_fork = None, child_fork = Some (10 + int i),
                        waits = (if i = 1 then second else [Reaped (10 + int i)])\<rparr>)\<rparr>"

text \<open>The marks of the calls of \<open>handle_mount\<close> and \<open>handle_run\<close>.\<close>

fun is_call :: "sys \<Rightarrow> bool" where
  "is_call (CallMount m) = True"
| "is_call (CallRun r) = True"
| "is_call c = False"

text \<open>A step is idle when it calls neither \<open>handle_mount\<close> nor \<open>handle_run\<close> nor
  \<open>execv\<close>, and either returns or exits with status 1.\<close>

definition idle :: "'a step \<Rightarrow> bool" where
  "idle m = (filter is_call (fst m) = [] \<and> quiet m)"

text \<open>A stand-in for the library that knows one configuration, a single \<open>Run\<close> with
  every field at its default, and its two payload bytes (field 3, length 0).\<close>

definition one_run_cfg :: Config where
  "one_run_cfg =
     \<lparr>tty_raw = [], mount = [],
      run = [\<lparr>daemon = False, cmd = [], arg = [], cwd = [], run_input = [], run_output = [],
              run_error = [], cat_output = False, env = [], user = False, uid = 0, gid = 0,
              limit = []\<rparr>],
      random = []\<rparr>"

definition one_run_env :: guest_env where
  "one_run_env =
     (example_env []) \<lparr>config_unpack := (\<lambda>bs. if bs = [0x1a, 0] then Some one_run_cfg else None)\<rparr>"

text \<open>The calls of \<open>kill\<close> among the calls of a process, and those that send \<open>SIGKILL\<close>.\<close>

fun is_kill :: "sys \<Rightarrow> bool" where
  "is_kill (Kill p s) = True"
| "is_kill c = False"

fun is_sigkill :: "sys \<Rightarrow> bool" where
  "is_sigkill (Kill p SIGKILL) = True"
| "is_sigkill c = False"

text \<open>A step avoids a kind of call when it makes none of that kind.\<close>

definition avoids :: "(sys \<Rightarrow> bool) \<Rightarrow> 'a step \<Rightarrow> bool" where
  "avoids P m = (filter P (fst m) = [])"





text \<open>
  The children of the supervisor that are left running after a list of its calls: those it
  has forked and has since neither reaped nor sent \<open>SIGKILL\<close>, as long as it has not
  powered the machine off, which ends them all.
\<close>

fun left_running :: "int list \<Rightarrow> sys list \<Rightarrow> int list" where
  "left_running ps [] = ps"
| "left_running ps (Fork p # t) = left_running (if 0 < p then ps @ [p] else ps) t"
| "left_running ps (Waitpid p # t) = left_running (removeAll p ps) t"
| "left_running ps (Kill p SIGKILL # t) = left_running (removeAll p ps) t"
| "left_running ps (PowerOff # t) = left_running [] t"
| "left_running ps (c # t) = left_running ps t"

text \<open>The call of \<open>mount\<close> that \<open>handle_mount\<close> makes for a \<open>Mount\<close>.\<close>

definition mount_call :: "Mount \<Rightarrow> sys" where
  "mount_call m = MountSys (source m) (mount_point (target m)) (fstype m) (mount_flags m)
              (if data m \<noteq> [] then Some (data m) else None)"

text \<open>The \<open>EnvVar\<close> that sets \<open>PATH\<close>, and two more kernels for \<open>ls -l\<close>: one where
  \<open>/bin/ls\<close> may not be executed and there is no other \<open>ls\<close>, one where \<open>/bin/ls\<close> may
  not be executed, \<open>/usr/bin/ls\<close> is a script without an interpreter line and there is
  no \<open>/bin/bash\<close>.\<close>

definition path_var :: "string \<Rightarrow> EnvVar" where
  "path_var p = \<lparr>env_key = ''PATH'', env_value = p\<rparr>"

definition execv_none :: "string \<Rightarrow> string list \<Rightarrow> errno option" where
  "execv_none p a = (if p = ''/bin/ls'' then Some EACCES else Some ENOENT)"

definition execv_second :: "string \<Rightarrow> string list \<Rightarrow> errno option" where
  "execv_second p a =
     (if p = ''/bin/ls'' then Some EACCES
      else if p = ''/usr/bin/ls'' then Some ENOEXEC
      else if p = ''/bin/bash'' then Some ENOENT else None)"

text \<open>A \<open>Run\<close> with \<open>cat_output\<close>, and what the kernel decides for it: the \<open>cat\<close>
  process is 20, the child 21.\<close>

definition cat_run :: Run where
  "cat_run = (named_run ''ls'') \<lparr>cat_output := True\<rparr>"

definition cat_env :: "wait_event list \<Rightarrow> run_env" where
  "cat_env w = \<lparr>rand_uid = 7, rand_gid = 7, cat_fork = Some 20, child_fork = Some 21, waits = w\<rparr>"

text \<open>The \<open>Mount\<close> the guest decodes for what \<open>host_mount\<close> builds with \<open>ro=True\<close>, a
  configuration of mounts only, and the host's options for a single \<open>--translate\<close> on a
  host without the base directories, with \<open>abspath\<close> leaving paths as they are.\<close>

definition hostfs_mount :: "string \<Rightarrow> string \<Rightarrow> Mount" where
  "hostfs_mount tgt dir =
     \<lparr>target = tgt, source = ''none'', fstype = ''hostfs'', data = dir, ro = True, nosuid = True\<rparr>"

definition mounts_cfg :: "Mount list \<Rightarrow> Config" where
  "mounts_cfg ms = \<lparr>tty_raw = [], mount = ms, run = [], random = []\<rparr>"




section \<open>Properties\<close>

subsection \<open>What one call of \<open>read\<close> does to \<open>readall\<close>\<close>

lemma read_sys_bounds:
  "read_sys fd req = (chunk, bs, e, fd') \<Longrightarrow>
     0 \<le> chunk \<longrightarrow> nat chunk \<le> req \<and> length bs = nat chunk \<and> e = None"
  by (auto simp: read_sys_def Let_def split: list.splits rd.splits)

lemma wrapped_not_less:
  assumes "0 < n" and "n \<le> unat c" and "unat c \<le> 2 ^ 63"
  shows "\<not> (0 - (word_of_nat n :: size_t) < c)"
proof -
  have "unat ((0 :: size_t) - word_of_nat n) = 2 ^ 64 - n"
    using assms unat_sub_if_size [of "0 :: size_t" "word_of_nat n"]
    by (simp add: unat_of_nat word_size)
  then show ?thesis using assms by (simp add: word_less_nat_alt)
qed

lemma readall_loop_stop:
  "\<not> got < count \<Longrightarrow> readall_loop fd buf at got count = (sint count, None, buf, at, fd)"
  by (subst readall_loop.simps) simp

text \<open>
  \<open>got\<close> starts at 0 and the chunk is subtracted from it, so after the first read that
  delivers anything \<open>got\<close> is \<open>2^64 - chunk\<close>, which is not below any \<open>count\<close> up to
  \<open>2^63\<close>: the loop ends after that one read and \<open>count\<close> is returned.
\<close>

lemma readall_single_read:
  assumes cnt: "unat count \<le> 2 ^ 63"
    and rd: "read_sys fd (unat count) = (chunk, bs, e, fd')" and pos: "0 < chunk"
  shows "readall fd buf count = (sint count, None, store buf 0 bs, nat chunk, fd')"
proof -
  from read_sys_bounds [OF rd] pos have le: "nat chunk \<le> unat count" by simp
  with pos have nz: "0 < count" by (simp add: word_less_nat_alt)
  have w: "word_of_int chunk = (word_of_nat (nat chunk) :: size_t)"
    using pos by simp
  have stop: "\<not> (0 - (word_of_int chunk :: size_t) < count)"
    unfolding w using pos le cnt by (intro wrapped_not_less) simp_all
  have "readall fd buf count =
      readall_loop fd' (store buf 0 bs) (0 + nat chunk) (0 - word_of_int chunk) count"
    unfolding readall_def using nz rd pos by (subst readall_loop.simps) simp
  also have "\<dots> = (sint count, None, store buf 0 bs, 0 + nat chunk, fd')"
    using stop by (rule readall_loop_stop)
  finally show ?thesis by simp
qed

text \<open>
  Claim C9. \<open>readall\<close> is to return \<open>count\<close> only once \<open>count\<close> bytes are in the
  buffer, looping over partial reads, and to return -1 with \<open>EPIPE\<close> when the end of
  the file comes first. On the code it does neither. Asked for 8 bytes from a descriptor
  whose first \<open>read\<close> delivers 3 of the 8 that are to come, it returns 8 with 3 bytes
  stored: bytes 3 to 7 of the buffer are what they were, and the other 5 bytes are still
  unread. Asked for 8 bytes from a file that holds only 5, it returns 8 as well, with 5
  bytes stored, and never sees the end of the file.
\<close>

theorem readall_short_read_returns_count:
  "readall \<lparr>pending = [1, 2, 3, 4, 5, 6, 7, 8], sched = [Deliver 3]\<rparr>
       [0, 0, 0, 0, 0, 0, 0, 0] 8
     = (8, None, [1, 2, 3, 0, 0, 0, 0, 0], 3, \<lparr>pending = [4, 5, 6, 7, 8], sched = []\<rparr>)
   \<and> readall (image_fd [1, 2, 3, 4, 5]) [0, 0, 0, 0, 0, 0, 0, 0] 8
     = (8, None, [1, 2, 3, 4, 5, 0, 0, 0], 5, \<lparr>pending = [], sched = []\<rparr>)"
  by (simp add: readall_def readall_loop.simps read_sys_def store_def image_fd_def)

subsection \<open>The order of the mount list\<close>

lemma keyed_dict_set: "keyed d \<Longrightarrow> target m = k \<Longrightarrow> keyed (dict_set d k m)"
  by (induction d) (auto simp: keyed_def)

lemma keyed_add_dirs: "keyed d \<Longrightarrow> keyed (add_dirs abspath r d specs)"
  unfolding add_dirs_def
  by (induction specs arbitrary: d) (simp_all add: Let_def keyed_dict_set host_mount_def)

lemma keyed_add_translated: "keyed d \<Longrightarrow> keyed (add_translated r d specs)"
  unfolding add_translated_def
  by (induction specs arbitrary: d)
    (simp_all add: keyed_dict_set host_mount_def split: prod.splits)

lemma keyed_base:
  "keyed d \<Longrightarrow>
     keyed (foldl (\<lambda>d m. if isdir m then dict_set d m (host_mount m m True) else d) d ms)"
  by (induction ms arbitrary: d) (simp_all add: keyed_dict_set host_mount_def)

lemma keyed_host_mounts: "keyed (host_mounts isdir abspath args)"
proof -
  have "keyed [(py ''/tmp'', plain_mount ''/tmp'' ''tmpfs'' ''tmpfs''),
               (py ''/proc'', plain_mount ''/proc'' ''proc'' ''proc''),
               (py ''/sys'', plain_mount ''/sys'' ''sysfs'' ''sysfs'')]"
    by (simp add: keyed_def plain_mount_def)
  then show ?thesis
    unfolding host_mounts_def Let_def
    by (intro keyed_add_translated keyed_add_dirs) (simp add: keyed_base)
qed

lemma keyed_lookup:
  "keyed d \<Longrightarrow> k \<in> fst ` set d \<Longrightarrow> \<exists>m. map_of d k = Some m \<and> target m = k"
  by (induction d) (auto simp: keyed_def)

lemma targets_of_lookups:
  "keyed d \<Longrightarrow> set ks \<subseteq> fst ` set d \<Longrightarrow>
     map target (concat (map (\<lambda>mdir. case map_of d mdir of Some m \<Rightarrow> [m] | None \<Rightarrow> []) ks))
       = ks"
proof (induction ks)
  case Nil
  then show ?case by simp
next
  case (Cons k ks)
  from keyed_lookup [OF Cons.prems(1), of k] Cons.prems(2)
  obtain m where "map_of d k = Some m" "target m = k" by auto
  with Cons show ?case by simp
qed

lemma targets_sorted_mounts:
  "keyed d \<Longrightarrow> map target (sorted_mounts d) = sort_key sort_order (map fst d)"
  unfolding sorted_mounts_def by (rule targets_of_lookups) simp_all

lemma sorted_mounts_sorted:
  assumes "keyed d"
  shows "sorted (map (\<lambda>m. sort_order (target m)) (sorted_mounts d))"
proof -
  have "map (\<lambda>m. sort_order (target m)) (sorted_mounts d)
      = map sort_order (map target (sorted_mounts d))" by simp
  also have "\<dots> = map sort_order (sort_key sort_order (map fst d))"
    by (simp only: targets_sorted_mounts [OF assms])
  finally show ?thesis by (simp only: sorted_sort_key)
qed

subsection \<open>Sequencing\<close>

lemma and_then_Done [simp]: "and_then (t, Done v) f = (t @ fst (f v), snd (f v))"
  by (simp add: and_then_def split: prod.splits)

lemma and_then_Exited [simp]: "and_then (t, Exited n) f = (t, Exited n)"
  by (simp add: and_then_def)

lemma and_then_Image [simp]: "and_then (t, Image p a) f = (t, Image p a)"
  by (simp add: and_then_def)

lemma and_then_Blocked [simp]: "and_then (t, Blocked) f = (t, Blocked)"
  by (simp add: and_then_def)

lemma fst_and_then:
  "fst (and_then m f) = (case snd m of Done v \<Rightarrow> fst m @ fst (f v) | _ \<Rightarrow> fst m)"
  by (cases m; cases "snd m") auto

lemma snd_and_then:
  "snd (and_then m f) =
     (case snd m of Done v \<Rightarrow> snd (f v) | Exited n \<Rightarrow> Exited n
      | Image p a \<Rightarrow> Image p a | Blocked \<Rightarrow> Blocked)"
  by (cases m; cases "snd m") auto

subsection \<open>Calls that a step never makes\<close>

lemma avoids_and_then:
  "avoids P m \<Longrightarrow> (\<And>v. avoids P (f v)) \<Longrightarrow> avoids P (and_then m f)"
  by (simp add: avoids_def fst_and_then split: outcome.splits)

lemma avoids_fail: "\<not> P PowerOff \<Longrightarrow> (\<And>s. \<not> P (Printf s)) \<Longrightarrow> avoids P (fail i msg)"
  by (simp add: avoids_def fail_def)

lemma avoids_emit: "filter P t = [] \<Longrightarrow> avoids P (emit t)"
  by (simp add: avoids_def emit_def)

lemma avoids_must:
  "\<not> P c \<Longrightarrow> \<not> P PowerOff \<Longrightarrow> (\<And>s. \<not> P (Printf s)) \<Longrightarrow> avoids P (must ok i msg c)"
  by (simp add: avoids_def must_def fail_def)

lemma avoids_for_each: "(\<And>x. avoids P (f x)) \<Longrightarrow> avoids P (for_each f xs)"
  by (induction xs) (auto intro!: avoids_and_then avoids_emit)

lemma avoids_nil: "avoids P ([], x)"
  by (simp add: avoids_def)

lemma avoids_handle_random:
  "\<not> P PowerOff \<Longrightarrow> (\<And>s. \<not> P (Printf s)) \<Longrightarrow> (\<And>s. \<not> P (Mknod s)) \<Longrightarrow> (\<And>s. \<not> P (Open s))
   \<Longrightarrow> (\<And>s. \<not> P (Close s)) \<Longrightarrow> (\<And>n. \<not> P (Malloc n)) \<Longrightarrow> (\<And>b. \<not> P (AddEntropy b))
   \<Longrightarrow> avoids P (handle_random ok bs)"
  unfolding handle_random_def
  by (intro avoids_and_then avoids_must) simp_all

lemma avoids_handle_tty_raw:
  "\<not> P PowerOff \<Longrightarrow> (\<And>s. \<not> P (Printf s)) \<Longrightarrow> (\<And>s. \<not> P (Open s))
   \<Longrightarrow> (\<And>s. \<not> P (Close s)) \<Longrightarrow> (\<And>s. \<not> P (Tcgetattr s)) \<Longrightarrow> (\<And>s. \<not> P (Tcsetattr s))
   \<Longrightarrow> avoids P (handle_tty_raw ok d)"
  unfolding handle_tty_raw_def
  by (intro avoids_and_then avoids_must avoids_emit) simp_all

lemma avoids_must_fork:
  "\<not> P PowerOff \<Longrightarrow> (\<And>s. \<not> P (Printf s)) \<Longrightarrow> (\<And>p. \<not> P (Fork p)) \<Longrightarrow> avoids P (must_fork res)"
  by (simp add: must_fork_def avoids_def emit_def fail_def split: option.splits)

lemma avoids_wait_loop:
  "\<not> P PowerOff \<Longrightarrow> (\<And>s. \<not> P (Printf s)) \<Longrightarrow> (\<And>p. \<not> P (Waitpid p)) \<Longrightarrow> (\<And>p. \<not> P (Kill p SIGTERM))
   \<Longrightarrow> avoids P (wait_loop child cat cr kr t es)"
  by (induction child cat cr kr t es rule: wait_loop.induct)
    (auto simp: Let_def avoids_def fail_def emit_def fst_and_then split: outcome.splits)

lemma avoids_handle_run:
  assumes "\<not> P PowerOff" "\<And>s. \<not> P (Printf s)" "\<And>p. \<not> P (Waitpid p)" "\<And>p. \<not> P (Kill p SIGTERM)"
    "\<And>p. \<not> P (Fork p)" "\<And>r. \<not> P (CallRun r)" "\<And>b. \<not> P (Sigprocmask b)" "\<not> P Pipe"
    "\<And>s. \<not> P (Close s)"
  shows "avoids P (handle_run ok re r)"
  unfolding handle_run_def
  by (auto simp: assms avoids_nil
      intro!: avoids_and_then avoids_must avoids_must_fork avoids_nil avoids_emit
        avoids_wait_loop)

lemma avoids_run_loop:
  assumes "\<not> P PowerOff" "\<And>s. \<not> P (Printf s)" "\<And>p. \<not> P (Waitpid p)" "\<And>p. \<not> P (Kill p SIGTERM)"
    "\<And>p. \<not> P (Fork p)" "\<And>r. \<not> P (CallRun r)" "\<And>b. \<not> P (Sigprocmask b)" "\<not> P Pipe"
    "\<And>s. \<not> P (Close s)"
  shows "avoids P (run_loop ok re i rs)"
  by (induction rs arbitrary: i)
    (auto intro!: avoids_and_then avoids_emit avoids_handle_run assms)


subsection \<open>Where a mount is applied\<close>



lemma no_mount_must:
  "\<not> is_mount_sys c \<Longrightarrow> filter is_mount_sys (fst (must ok i msg c)) = []"
  by (simp add: must_def fail_def emit_def)

lemma no_mount_and_then:
  "filter is_mount_sys (fst m) = [] \<Longrightarrow> (\<And>v. filter is_mount_sys (fst (f v)) = []) \<Longrightarrow>
   filter is_mount_sys (fst (and_then m f)) = []"
  by (simp add: fst_and_then split: outcome.splits)

lemma no_mount_mkdirs_parts: "filter is_mount_sys (fst (mkdirs_parts ok ps)) = []"
  by (induction ps) (auto simp: emit_def intro!: no_mount_and_then no_mount_must)

lemma no_mount_mkdirs: "filter is_mount_sys (fst (mkdirs ok d)) = []"
  unfolding mkdirs_def
  by (intro no_mount_and_then no_mount_must no_mount_mkdirs_parts) simp_all

lemma handle_mount_calls:
  "filter is_mount_sys (fst (handle_mount ok mnt)) =
     (if snd (mkdirs ok (mount_point (target mnt))) = Done ()
      then [MountSys (source mnt) (mount_point (target mnt)) (fstype mnt) (mount_flags mnt)
              (if data mnt \<noteq> [] then Some (data mnt) else None)]
      else [])"
  by (simp add: handle_mount_def Let_def emit_def fst_and_then no_mount_mkdirs must_def
      fail_def split: outcome.splits)

subsection \<open>Resource limits\<close>

lemma quiet_emit: "filter is_execv t = [] \<Longrightarrow> quiet (emit t)"
  by (simp add: quiet_def emit_def)

lemma dies_fail: "dies (fail i msg)"
  by (simp add: dies_def fail_def)

lemma dies_quiet: "dies m \<Longrightarrow> quiet m"
  by (simp add: dies_def quiet_def)

lemma quiet_must: "\<not> is_execv c \<Longrightarrow> quiet (must ok i msg c)"
  by (simp add: quiet_def must_def fail_def emit_def)

lemma quiet_and_then:
  assumes "quiet m" and "\<And>v. quiet (f v)"
  shows "quiet (and_then m f)"
proof (cases m)
  case (Pair t r)
  show ?thesis
  proof (cases r)
    case (Done v)
    with Pair assms(1) assms(2) [of v] show ?thesis by (auto simp: quiet_def)
  next
    case (Exited n)
    with Pair assms(1) show ?thesis by (auto simp: quiet_def)
  next
    case (Image p a)
    with Pair assms(1) show ?thesis by (auto simp: quiet_def)
  next
    case Blocked
    with Pair assms(1) show ?thesis by (auto simp: quiet_def)
  qed
qed



lemma quiet_open_to: "quiet (open_to ok i n p fb)"
  unfolding open_to_def
  by (auto intro!: quiet_and_then quiet_must quiet_emit split: option.splits)

lemma quiet_hostify: "quiet (hostify ok d usr u g)"
  unfolding hostify_def
  by (auto intro!: quiet_and_then quiet_must quiet_emit)

lemma quiet_setenvs:
  "filter is_execv (map (\<lambda>v. Setenv (env_key v) (env_value v)) vs) = []"
  by (induction vs) auto

lemma quiet_first:
  assumes "quiet (m :: unit step)" and "filter is_execv (fst (and_then m f)) \<noteq> []"
  shows "snd m = Done () \<and> fst (and_then m f) = fst m @ fst (f ())
         \<and> filter is_execv (fst m) = [] \<and> filter is_execv (fst (f ())) \<noteq> []"
proof -
  obtain t x where m: "m = (t, x)" by (cases m)
  from assms(1) have q: "filter is_execv t = []" and x: "x = Exited 1 \<or> x = Done ()"
    by (auto simp: quiet_def m)
  from x show ?thesis
  proof
    assume "x = Exited 1"
    with assms(2) q show ?thesis by (simp add: m)
  next
    assume "x = Done ()"
    with assms(2) q show ?thesis by (simp add: m)
  qed
qed





lemma valid_kind: "1 \<le> k \<Longrightarrow> k \<le> 9 \<Longrightarrow> fst (resource_map ! nat k)"
proof -
  assume "1 \<le> k" "k \<le> 9"
  then have "nat k \<in> {1, 2, 3, 4, 5, 6, 7, 8, 9}" by auto
  then show ?thesis by (auto simp: resource_map_def)
qed


lemma quiet_set_limits: "quiet (set_limits ok i ls)"
proof (induction ls)
  case Nil
  show ?case by (simp add: quiet_emit)
next
  case (Cons l ls)
  show ?case
  proof (cases "resource l < 0 \<or> resource l \<ge> n_resource_map
                  \<or> \<not> fst (resource_map ! nat (resource l))")
    case True
    then show ?thesis by (simp add: dies_fail dies_quiet)
  next
    case False
    then show ?thesis
      using Cons by (auto intro!: quiet_and_then quiet_must)
  qed
qed





subsection \<open>The search for the executable\<close>

lemma sep_fields_nonempty: "sep_fields c p \<noteq> []"
  by (induction p) (auto split: list.splits)

lemma fields_no_sep: "strchr p c = None \<Longrightarrow> sep_fields c p = [p]"
  by (induction p) (auto split: if_splits)

lemma fields_at_sep: "strchr p c = Some k \<Longrightarrow> sep_fields c p = take k p # sep_fields c (drop (Suc k) p)"
proof (induction p arbitrary: k)
  case Nil
  then show ?case by simp
next
  case (Cons x xs)
  show ?case
  proof (cases "x = c")
    case True
    with Cons.prems show ?thesis by simp
  next
    case False
    with Cons.prems obtain j where j: "strchr xs c = Some j" "k = Suc j" by auto
    from Cons.IH [OF j(1)] False j show ?thesis by simp
  qed
qed

lemma strchr_None_iff: "strchr p c = None \<longleftrightarrow> c \<notin> set p"
  by (induction p) auto

lemma strchr_at: "strchr p c = Some k \<Longrightarrow> k < length p \<and> p ! k = c"
  by (induction p arbitrary: k) (auto split: if_splits)

lemma path_entries_no_colon:
  assumes "strchr p CHR '':'' = None"
  shows "path_entries p = [p]"
proof (cases "p = []")
  case True
  then show ?thesis by (simp add: path_entries_def)
next
  case False
  then have "last p \<in> set p" by (rule last_in_set)
  moreover have "CHR '':'' \<notin> set p" using assms by (simp add: strchr_None_iff)
  ultimately have "last p \<noteq> CHR '':''" by metis
  with assms show ?thesis by (simp add: path_entries_def fields_no_sep)
qed

lemma path_entries_colon_end:
  assumes "strchr p CHR '':'' = Some k" and "drop (Suc k) p = []"
  shows "path_entries p = [take k p]"
proof -
  from strchr_at [OF assms(1)] assms(2) have k: "k = length p - 1" "p \<noteq> []" "p ! k = CHR '':''"
    by auto
  then have "p \<noteq> []" "last p = CHR '':''"
    by (simp_all add: last_conv_nth)
  moreover have "sep_fields CHR '':'' p = [take k p, []]"
    using fields_at_sep [OF assms(1)] assms(2) by simp
  ultimately show ?thesis by (simp add: path_entries_def)
qed

lemma path_entries_colon:
  assumes "strchr p CHR '':'' = Some k" and "drop (Suc k) p \<noteq> []"
  shows "path_entries p = take k p # path_entries (drop (Suc k) p)"
proof -
  let ?q = "drop (Suc k) p"
  have l: "last p = last ?q" using assms(2) by (simp add: last_drop)
  have p: "p \<noteq> []" using assms(2) by auto
  have f: "sep_fields CHR '':'' p = take k p # sep_fields CHR '':'' ?q"
    by (rule fields_at_sep [OF assms(1)])
  show ?thesis
    using assms(2) l p f sep_fields_nonempty [of "CHR '':''" ?q]
    by (cases "sep_fields CHR '':'' ?q") (auto simp: path_entries_def)
qed

lemma exec_loop_entries:
  "exec_loop execv rcmd args cmd0 (Some p) ee = try_entries execv rcmd args ee (path_entries p)"
proof (induction "length p" arbitrary: p cmd0 ee rule: less_induct)
  case less
  show ?case
  proof (cases "strchr p CHR '':''")
    case None
    then show ?thesis
      by (subst exec_loop.simps)
        (simp add: next_candidate_def path_entries_no_colon report_def emit_def Let_def candidate_def
          split: option.splits)
  next
    case (Some k)
    show ?thesis
    proof (cases "drop (Suc k) p = []")
      case True
      with Some show ?thesis
        by (subst exec_loop.simps)
          (simp add: next_candidate_def path_entries_colon_end report_def emit_def Let_def candidate_def
            split: option.splits)
    next
      case False
      from strchr_at [OF Some] have "length (drop (Suc k) p) < length p" by auto
      note IH = less [OF this]
      from Some False show ?thesis
        by (subst exec_loop.simps)
          (simp add: next_candidate_def path_entries_colon IH emit_def Let_def candidate_def split: option.splits)
    qed
  qed
qed

lemma foldl_keep_eacces:
  "foldl keep_eacces ee errs =
     (if ee = Some EACCES \<or> EACCES \<in> set errs then Some EACCES
      else if errs = [] then ee else Some (last errs))"
  by (induction errs arbitrary: ee) (auto simp: keep_eacces_def)

lemma try_entries_errs:
  assumes "map (\<lambda>x. execv (candidate rcmd x) (rcmd # args)) pre = map Some errs"
    and "ENOEXEC \<notin> set errs"
  shows "try_entries execv rcmd args ee (pre @ ds) =
           (map (\<lambda>x. Execv (candidate rcmd x) (rcmd # args)) pre
              @ fst (try_entries execv rcmd args (foldl keep_eacces ee errs) ds),
            snd (try_entries execv rcmd args (foldl keep_eacces ee errs) ds))"
  using assms
proof (induction pre arbitrary: ee errs)
  case Nil
  then show ?case by simp
next
  case (Cons x pre)
  from Cons.prems(1) obtain e es where errs: "errs = e # es" by (cases errs) auto
  with Cons.prems have e: "execv (candidate rcmd x) (rcmd # args) = Some e" "e \<noteq> ENOEXEC"
    and m: "map (\<lambda>x. execv (candidate rcmd x) (rcmd # args)) pre = map Some es"
    and n: "ENOEXEC \<notin> set es" by auto
  from Cons.IH [OF m n, of "keep_eacces ee e"] e show ?case
    by (simp add: errs emit_def)
qed

lemma exec_search_exact:
  assumes "strchr (cmd r) CHR ''/'' = None" and "environ ''PATH'' = Some p"
    and "ok (Malloc (length p + length (cmd r) + 2))"
  shows "exec_search ok execv environ r =
           (Malloc (length p + length (cmd r) + 2)
              # fst (try_entries execv (cmd r) (arg r) None (path_entries p)),
            snd (try_entries execv (cmd r) (arg r) None (path_entries p)))"
  using assms
  by (simp add: exec_search_def search_path_def Let_def must_def exec_loop_entries)

lemma exec_search_default:
  "environ ''PATH'' = None \<Longrightarrow>
   exec_search ok execv environ r = exec_search ok execv (environ(''PATH'' \<mapsto> DEFAULT_PATH)) r"
  by (simp add: exec_search_def search_path_def)

lemma set_limits_done:
  "\<forall>l\<in>set ls. 1 \<le> resource l \<and> resource l \<le> 9 \<Longrightarrow>
   snd (set_limits (\<lambda>c. True) i ls) = Done () \<and> filter is_execv (fst (set_limits (\<lambda>c. True) i ls)) = []"
proof (induction ls)
  case Nil
  show ?case by (simp add: emit_def)
next
  case (Cons l ls)
  then have v: "1 \<le> resource l" "resource l \<le> 9" by simp_all
  from valid_kind [OF v] v have "\<not> (resource l < 0 \<or> resource l \<ge> n_resource_map
         \<or> \<not> fst (resource_map ! nat (resource l)))"
    by (simp add: n_resource_map_def resource_map_def)
  with Cons show ?case
    by (simp add: must_def fst_and_then snd_and_then)
qed

lemma open_to_done: "snd (open_to (\<lambda>c. True) i n p fb) = Done ()"
  by (simp add: open_to_def must_def emit_def snd_and_then split: option.splits)

lemma hostify_done: "snd (hostify (\<lambda>c. True) d usr u g) = Done ()"
  by (simp add: hostify_def must_def emit_def snd_and_then)

lemma done_quiet:
  assumes "snd (m :: unit step) = Done ()" and "quiet m"
  shows "\<exists>t. m = (t, Done ()) \<and> filter is_execv t = []"
  using assms by (cases m) (simp add: quiet_def)

lemma child_main_reaches_search:
  assumes "\<forall>l\<in>set (limit r). 1 \<le> resource l \<and> resource l \<le> 9"
  shows "\<exists>t. filter is_execv t = []
           \<and> child_main (\<lambda>c. True) execv r u g has_cat =
               (t @ fst (exec_search (\<lambda>c. True) execv (setenv_all init_environ (env r)) r),
                snd (exec_search (\<lambda>c. True) execv (setenv_all init_environ (env r)) r))"
proof -
  let ?ok = "\<lambda>c :: sys. True"
  let ?m1 = "open_to ?ok False 0 (or_null (run_input r)) None"
  let ?m2 = "if has_cat then
          and_then (must ?ok False ''dup2 (cat -> out)'' (Dup2 ''cat_pipe[1]'' 1)) (\<lambda>x.
          and_then (must ?ok False ''dup2 (cat -> err)'' (Dup2 ''cat_pipe[1]'' 2)) (\<lambda>x.
          emit [Close ''cat_pipe[0]'', Close ''cat_pipe[1]'']))
        else
          and_then (open_to ?ok False 1 (or_null (run_output r)) None) (\<lambda>x.
          open_to ?ok False 2 (run_error r) (Some 1))"
  let ?m3 = "emit (map (\<lambda>v. Setenv (env_key v) (env_value v)) (env r))"
  let ?m4 = "hostify ?ok (cwd r) (user r) u g"
  let ?m5 = "set_limits ?ok False (limit r)"
  let ?m6 = "must ?ok False ''malloc argv'' (Malloc ((length (arg r) + 3) * 8))"
  have "snd ?m1 = Done ()" by (rule open_to_done)
  moreover have "quiet ?m1" by (rule quiet_open_to)
  ultimately obtain t1 where t1: "?m1 = (t1, Done ())" "filter is_execv t1 = []"
    using done_quiet by blast
  have "snd ?m2 = Done ()" by (simp add: must_def emit_def snd_and_then open_to_done)
  moreover have "quiet ?m2"
    by (auto intro!: quiet_and_then quiet_must quiet_emit quiet_open_to)
  ultimately obtain t2 where t2: "?m2 = (t2, Done ())" "filter is_execv t2 = []"
    using done_quiet by blast
  have "snd ?m3 = Done ()" by (simp add: emit_def)
  moreover have "quiet ?m3" by (rule quiet_emit, rule quiet_setenvs)
  ultimately obtain t3 where t3: "?m3 = (t3, Done ())" "filter is_execv t3 = []"
    using done_quiet by blast
  have "snd ?m4 = Done ()" by (rule hostify_done)
  moreover have "quiet ?m4" by (rule quiet_hostify)
  ultimately obtain t4 where t4: "?m4 = (t4, Done ())" "filter is_execv t4 = []"
    using done_quiet by blast
  from set_limits_done [OF assms, of False]
  obtain t5 where t5: "?m5 = (t5, Done ())" "filter is_execv t5 = []"
    by (cases ?m5) simp
  have t6: "?m6 = ([Malloc ((length (arg r) + 3) * 8)], Done ())" by (simp add: must_def)
  have "child_main ?ok execv r u g has_cat =
      and_then ?m1 (\<lambda>x. and_then ?m2 (\<lambda>x. and_then ?m3 (\<lambda>x. and_then ?m4 (\<lambda>x.
      and_then ?m5 (\<lambda>x. and_then ?m6 (\<lambda>x.
        exec_search ?ok execv (setenv_all init_environ (env r)) r))))))"
    by (simp add: child_main_def)
  also have "\<dots> = ((t1 @ t2 @ t3 @ t4 @ t5 @ [Malloc ((length (arg r) + 3) * 8)])
               @ fst (exec_search ?ok execv (setenv_all init_environ (env r)) r),
             snd (exec_search ?ok execv (setenv_all init_environ (env r)) r))"
    unfolding t1 t2 t3 t4 t5 t6 by simp
  finally have "child_main ?ok execv r u g has_cat =
      ((t1 @ t2 @ t3 @ t4 @ t5 @ [Malloc ((length (arg r) + 3) * 8)])
               @ fst (exec_search ?ok execv (setenv_all init_environ (env r)) r),
             snd (exec_search ?ok execv (setenv_all init_environ (env r)) r))" .
  moreover have "filter is_execv (t1 @ t2 @ t3 @ t4 @ t5 @ [Malloc ((length (arg r) + 3) * 8)]) = []"
    using t1 t2 t3 t4 t5 by simp
  ultimately show ?thesis by blast
qed

lemma child_main_execs_by_search:
  assumes "filter is_execv (fst (child_main ok execv r u g has_cat)) \<noteq> []"
  shows "\<exists>t. filter is_execv t = []
           \<and> child_main ok execv r u g has_cat =
               (t @ fst (exec_search ok execv (setenv_all init_environ (env r)) r),
                snd (exec_search ok execv (setenv_all init_environ (env r)) r))"
proof -
  let ?m1 = "open_to ok False 0 (or_null (run_input r)) None"
  let ?m2 = "if has_cat then
          and_then (must ok False ''dup2 (cat -> out)'' (Dup2 ''cat_pipe[1]'' 1)) (\<lambda>x.
          and_then (must ok False ''dup2 (cat -> err)'' (Dup2 ''cat_pipe[1]'' 2)) (\<lambda>x.
          emit [Close ''cat_pipe[0]'', Close ''cat_pipe[1]'']))
        else
          and_then (open_to ok False 1 (or_null (run_output r)) None) (\<lambda>x.
          open_to ok False 2 (run_error r) (Some 1))"
  let ?m3 = "emit (map (\<lambda>v. Setenv (env_key v) (env_value v)) (env r))"
  let ?m4 = "hostify ok (cwd r) (user r) u g"
  let ?m5 = "set_limits ok False (limit r)"
  let ?m6 = "must ok False ''malloc argv'' (Malloc ((length (arg r) + 3) * 8))"
  let ?s = "exec_search ok execv (setenv_all init_environ (env r)) r"
  have q1: "quiet ?m1" by (rule quiet_open_to)
  have q2: "quiet ?m2"
    by (auto intro!: quiet_and_then quiet_must quiet_emit quiet_open_to)
  have q3: "quiet ?m3" by (rule quiet_emit, rule quiet_setenvs)
  have q4: "quiet ?m4" by (rule quiet_hostify)
  have q5: "quiet ?m5" by (rule quiet_set_limits)
  have q6: "quiet ?m6" by (rule quiet_must) simp
  have c: "child_main ok execv r u g has_cat =
      and_then ?m1 (\<lambda>x. and_then ?m2 (\<lambda>x. and_then ?m3 (\<lambda>x. and_then ?m4 (\<lambda>x.
      and_then ?m5 (\<lambda>x. and_then ?m6 (\<lambda>x. ?s))))))"
    by (simp add: child_main_def)
  note f1 = quiet_first [OF q1 assms [unfolded c]]
  note f2 = quiet_first [OF q2 f1 [THEN conjunct2, THEN conjunct2, THEN conjunct2]]
  note f3 = quiet_first [OF q3 f2 [THEN conjunct2, THEN conjunct2, THEN conjunct2]]
  note f4 = quiet_first [OF q4 f3 [THEN conjunct2, THEN conjunct2, THEN conjunct2]]
  note f5 = quiet_first [OF q5 f4 [THEN conjunct2, THEN conjunct2, THEN conjunct2]]
  note f6 = quiet_first [OF q6 f5 [THEN conjunct2, THEN conjunct2, THEN conjunct2]]
  obtain t1 where t1: "?m1 = (t1, Done ())" "filter is_execv t1 = []"
    using f1 by (cases ?m1) auto
  obtain t2 where t2: "?m2 = (t2, Done ())" "filter is_execv t2 = []"
    using f2 by (cases ?m2) auto
  obtain t3 where t3: "?m3 = (t3, Done ())" "filter is_execv t3 = []"
    using f3 by (cases ?m3) auto
  obtain t4 where t4: "?m4 = (t4, Done ())" "filter is_execv t4 = []"
    using f4 by (cases ?m4) auto
  obtain t5 where t5: "?m5 = (t5, Done ())" "filter is_execv t5 = []"
    using f5 by (cases ?m5) auto
  obtain t6 where t6: "?m6 = (t6, Done ())" "filter is_execv t6 = []"
    using f6 by (cases ?m6) auto
  have "child_main ok execv r u g has_cat = ((t1 @ t2 @ t3 @ t4 @ t5 @ t6) @ fst ?s, snd ?s)"
    unfolding c t1 t2 t3 t4 t5 t6 by simp
  moreover have "filter is_execv (t1 @ t2 @ t3 @ t4 @ t5 @ t6) = []"
    using t1 t2 t3 t4 t5 t6 by simp
  ultimately show ?thesis by blast
qed

lemma recorded_errno:
  "keep_eacces (foldl keep_eacces None errs) e = Some (if EACCES \<in> set errs then EACCES else e)"
proof (cases "errs = []")
  case True
  then show ?thesis by (simp add: keep_eacces_def)
next
  case False
  then have "last errs \<in> set errs" by (rule last_in_set)
  then show ?thesis by (auto simp: foldl_keep_eacces keep_eacces_def)
qed

text \<open>
  Claim C7. For a command name without a slash, with \<open>PATH\<close> set to \<open>p\<close> in the
  environment of the child and once the buffer for the candidates has been allocated, the
  child tries the candidates of the entries of \<open>p\<close> in order. If the entries before
  \<open>d\<close> fail with errors other than \<open>ENOEXEC\<close> and the candidate of \<open>d\<close> fails with
  \<open>ENOEXEC\<close>, the calls of \<open>execv\<close> are those candidates, that of \<open>d\<close>, and then one
  call of the default shell with the candidate of \<open>d\<close> and the arguments of the \<open>Run\<close>;
  no later entry is tried, and if the shell cannot be executed either the child prints the
  error and exits with status 1. If the candidate of \<open>d\<close> is executed, the search ends
  there. If every entry fails otherwise, every candidate has been tried, and the last thing
  the child does is print the command name and the error and exit with status 1. The error
  printed is that of \<open>EACCES\<close> if one of the failed calls before the last gave
  \<open>EACCES\<close>, and that of the last failed call otherwise. An unset \<open>PATH\<close> is searched
  as the default path is. The environment of the child is the supervisor's with the
  variables of the \<open>Run\<close> set: with valid limits and every other call succeeding,
  \<open>child_main\<close> makes no \<open>execv\<close> before the search and ends as the search in that
  environment does, and under any kernel a child that makes an \<open>execv\<close> at all makes it
  in this search, in that environment. The entries of \<open>/bin:/usr/bin\<close> are \<open>/bin\<close> and
  \<open>/usr/bin\<close>.
\<close>

theorem exec_search_follows_path:
  "(strchr (cmd r) CHR ''/'' = None \<and> environ ''PATH'' = Some p
      \<and> ok (Malloc (length p + length (cmd r) + 2)) \<longrightarrow>
     (path_entries p = pre @ d # post
        \<and> map (\<lambda>x. execv (candidate (cmd r) x) (cmd r # arg r)) pre = map Some errs
        \<and> ENOEXEC \<notin> set errs
        \<and> execv (candidate (cmd r) d) (cmd r # arg r) = Some ENOEXEC \<longrightarrow>
          exec_search ok execv environ r =
            (Malloc (length p + length (cmd r) + 2)
               # map (\<lambda>x. Execv (candidate (cmd r) x) (cmd r # arg r)) (pre @ [d])
               @ Execv DEFAULT_SHELL (DEFAULT_SHELL # candidate (cmd r) d # arg r)
               # (case execv DEFAULT_SHELL (DEFAULT_SHELL # candidate (cmd r) d # arg r) of
                    None \<Rightarrow> []
                  | Some e \<Rightarrow>
                      [Printf (cmd r @ ''? ''
                         @ strerror (Some (if EACCES \<in> set errs then EACCES else e)))]),
             case execv DEFAULT_SHELL (DEFAULT_SHELL # candidate (cmd r) d # arg r) of
               None \<Rightarrow> Image DEFAULT_SHELL (DEFAULT_SHELL # candidate (cmd r) d # arg r)
             | Some e \<Rightarrow> Exited 1))
     \<and> (path_entries p = pre @ d # post
        \<and> map (\<lambda>x. execv (candidate (cmd r) x) (cmd r # arg r)) pre = map Some errs
        \<and> ENOEXEC \<notin> set errs
        \<and> execv (candidate (cmd r) d) (cmd r # arg r) = None \<longrightarrow>
          exec_search ok execv environ r =
            (Malloc (length p + length (cmd r) + 2)
               # map (\<lambda>x. Execv (candidate (cmd r) x) (cmd r # arg r)) (pre @ [d]),
             Image (candidate (cmd r) d) (cmd r # arg r)))
     \<and> (map (\<lambda>x. execv (candidate (cmd r) x) (cmd r # arg r)) (path_entries p) = map Some errs
        \<and> ENOEXEC \<notin> set errs \<longrightarrow>
          exec_search ok execv environ r =
            (Malloc (length p + length (cmd r) + 2)
               # map (\<lambda>x. Execv (candidate (cmd r) x) (cmd r # arg r)) (path_entries p)
               @ [Printf (cmd r @ ''? ''
                    @ strerror (Some (if EACCES \<in> set errs then EACCES else last errs)))],
             Exited 1)))
   \<and> (environ ''PATH'' = None \<longrightarrow>
        exec_search ok execv environ r
          = exec_search ok execv (environ(''PATH'' \<mapsto> DEFAULT_PATH)) r)
   \<and> ((\<forall>l\<in>set (limit r). 1 \<le> resource l \<and> resource l \<le> 9) \<longrightarrow>
        (\<exists>t. filter is_execv t = []
           \<and> child_main (\<lambda>c. True) execv r u g has_cat =
               (t @ fst (exec_search (\<lambda>c. True) execv (setenv_all init_environ (env r)) r),
                snd (exec_search (\<lambda>c. True) execv (setenv_all init_environ (env r)) r))))
   \<and> (filter is_execv (fst (child_main ok execv r u g has_cat)) \<noteq> [] \<longrightarrow>
        (\<exists>t. filter is_execv t = []
           \<and> child_main ok execv r u g has_cat =
               (t @ fst (exec_search ok execv (setenv_all init_environ (env r)) r),
                snd (exec_search ok execv (setenv_all init_environ (env r)) r))))
   \<and> path_entries ''/bin:/usr/bin'' = [''/bin'', ''/usr/bin'']"
proof (intro conjI impI)
  show "path_entries ''/bin:/usr/bin'' = [''/bin'', ''/usr/bin'']"
    by (simp add: path_entries_def)
next
  assume "filter is_execv (fst (child_main ok execv r u g has_cat)) \<noteq> []"
  then show "\<exists>t. filter is_execv t = []
           \<and> child_main ok execv r u g has_cat =
               (t @ fst (exec_search ok execv (setenv_all init_environ (env r)) r),
                snd (exec_search ok execv (setenv_all init_environ (env r)) r))"
    by (rule child_main_execs_by_search)
next
  assume "environ ''PATH'' = None"
  then show "exec_search ok execv environ r
          = exec_search ok execv (environ(''PATH'' \<mapsto> DEFAULT_PATH)) r"
    by (rule exec_search_default)
next
  assume "\<forall>l\<in>set (limit r). 1 \<le> resource l \<and> resource l \<le> 9"
  then show "\<exists>t. filter is_execv t = []
           \<and> child_main (\<lambda>c. True) execv r u g has_cat =
               (t @ fst (exec_search (\<lambda>c. True) execv (setenv_all init_environ (env r)) r),
                snd (exec_search (\<lambda>c. True) execv (setenv_all init_environ (env r)) r))"
    by (rule child_main_reaches_search)
next
  assume h: "strchr (cmd r) CHR ''/'' = None \<and> environ ''PATH'' = Some p
      \<and> ok (Malloc (length p + length (cmd r) + 2))"
  then have h1: "strchr (cmd r) CHR ''/'' = None" and h2: "environ ''PATH'' = Some p"
    and h3: "ok (Malloc (length p + length (cmd r) + 2))" by simp_all
  note es = exec_search_exact [where execv = execv and ok = ok and environ = environ and r = r and p = p, OF h1 h2 h3]
  let ?c = "cmd r" and ?a = "arg r"
  {
    assume a: "path_entries p = pre @ d # post
        \<and> map (\<lambda>x. execv (candidate (cmd r) x) (cmd r # arg r)) pre = map Some errs
        \<and> ENOEXEC \<notin> set errs
        \<and> execv (candidate (cmd r) d) (cmd r # arg r) = Some ENOEXEC"
    then have p: "path_entries p = pre @ d # post"
      and m: "map (\<lambda>x. execv (candidate ?c x) (?c # ?a)) pre = map Some errs"
      and n: "ENOEXEC \<notin> set errs"
      and x: "execv (candidate ?c d) (?c # ?a) = Some ENOEXEC" by simp_all
    note t = try_entries_errs [where execv = execv and rcmd = "cmd r" and args = "arg r" and pre = pre and errs = errs and ee = None and ds = "d # post", OF m n]
    show "exec_search ok execv environ r =
            (Malloc (length p + length (cmd r) + 2)
               # map (\<lambda>x. Execv (candidate (cmd r) x) (cmd r # arg r)) (pre @ [d])
               @ Execv DEFAULT_SHELL (DEFAULT_SHELL # candidate (cmd r) d # arg r)
               # (case execv DEFAULT_SHELL (DEFAULT_SHELL # candidate (cmd r) d # arg r) of
                    None \<Rightarrow> []
                  | Some e \<Rightarrow>
                      [Printf (cmd r @ ''? ''
                         @ strerror (Some (if EACCES \<in> set errs then EACCES else e)))]),
             case execv DEFAULT_SHELL (DEFAULT_SHELL # candidate (cmd r) d # arg r) of
               None \<Rightarrow> Image DEFAULT_SHELL (DEFAULT_SHELL # candidate (cmd r) d # arg r)
             | Some e \<Rightarrow> Exited 1)"
      unfolding es p t using x
      by (simp add: Let_def emit_def report_def recorded_errno split: option.splits)
  }
  {
    assume a: "path_entries p = pre @ d # post
        \<and> map (\<lambda>x. execv (candidate (cmd r) x) (cmd r # arg r)) pre = map Some errs
        \<and> ENOEXEC \<notin> set errs
        \<and> execv (candidate (cmd r) d) (cmd r # arg r) = None"
    then have p: "path_entries p = pre @ d # post"
      and m: "map (\<lambda>x. execv (candidate ?c x) (?c # ?a)) pre = map Some errs"
      and n: "ENOEXEC \<notin> set errs"
      and x: "execv (candidate ?c d) (?c # ?a) = None" by simp_all
    note t = try_entries_errs [where execv = execv and rcmd = "cmd r" and args = "arg r" and pre = pre and errs = errs and ee = None and ds = "d # post", OF m n]
    show "exec_search ok execv environ r =
            (Malloc (length p + length (cmd r) + 2)
               # map (\<lambda>x. Execv (candidate (cmd r) x) (cmd r # arg r)) (pre @ [d]),
             Image (candidate (cmd r) d) (cmd r # arg r))"
      unfolding es p t using x by (simp add: Let_def)
  }
  {
    assume a: "map (\<lambda>x. execv (candidate (cmd r) x) (cmd r # arg r)) (path_entries p) = map Some errs
        \<and> ENOEXEC \<notin> set errs"
    then have m: "map (\<lambda>x. execv (candidate ?c x) (?c # ?a)) (path_entries p) = map Some errs"
      and n: "ENOEXEC \<notin> set errs" by simp_all
    have "path_entries p \<noteq> []"
    proof (cases "strchr p CHR '':''")
      case None
      then show ?thesis by (simp add: path_entries_no_colon)
    next
      case (Some k)
      then show ?thesis
        by (cases "drop (Suc k) p = []") (simp_all add: path_entries_colon_end path_entries_colon)
    qed
    with m have ne: "errs \<noteq> []" by auto
    note t = try_entries_errs [where execv = execv and rcmd = "cmd r" and args = "arg r" and pre = "path_entries p" and errs = errs and ee = None and ds = "[]", OF m n]
    show "exec_search ok execv environ r =
            (Malloc (length p + length (cmd r) + 2)
               # map (\<lambda>x. Execv (candidate (cmd r) x) (cmd r # arg r)) (path_entries p)
               @ [Printf (cmd r @ ''? ''
                    @ strerror (Some (if EACCES \<in> set errs then EACCES else last errs)))],
             Exited 1)"
      unfolding es using t ne
      by (simp add: report_def foldl_keep_eacces)
  }
qed

text \<open>A \<open>Run\<close> of \<open>ls -l\<close> whose environment sets \<open>PATH\<close> to \<open>/bin:/usr/bin\<close>, under
  three kernels, and one without \<open>PATH\<close>.\<close>

theorem exec_search_follows_path_witness:
  "exec_search (\<lambda>c. True) execv_second (setenv_all init_environ [path_var ''/bin:/usr/bin''])
       (example_run [])
     = ([Malloc 17, Execv ''/bin/ls'' [''ls'', ''-l''], Execv ''/usr/bin/ls'' [''ls'', ''-l''],
         Execv ''/bin/bash'' [''/bin/bash'', ''/usr/bin/ls'', ''-l''],
         Printf ''ls? Permission denied''], Exited 1)
   \<and> exec_search (\<lambda>c. True) execv_binary (setenv_all init_environ [path_var ''/bin:/usr/bin''])
       (example_run [])
     = ([Malloc 17, Execv ''/bin/ls'' [''ls'', ''-l'']], Image ''/bin/ls'' [''ls'', ''-l''])
   \<and> exec_search (\<lambda>c. True) execv_none (setenv_all init_environ [path_var ''/bin:/usr/bin''])
       (example_run [])
     = ([Malloc 17, Execv ''/bin/ls'' [''ls'', ''-l''], Execv ''/usr/bin/ls'' [''ls'', ''-l''],
         Printf ''ls? Permission denied''], Exited 1)
   \<and> exec_search (\<lambda>c. True) execv_script Map.empty (example_run [])
     = exec_search (\<lambda>c. True) execv_script [''PATH'' \<mapsto> DEFAULT_PATH] (example_run [])
   \<and> filter is_execv (fst (child_main (\<lambda>c. True) execv_none
         ((example_run []) \<lparr>env := [path_var ''/bin:/usr/bin'']\<rparr>) 1000 1000 False))
     = [Execv ''/bin/ls'' [''ls'', ''-l''], Execv ''/usr/bin/ls'' [''ls'', ''-l'']]
   \<and> (\<exists>t. filter is_execv t = []
         \<and> child_main (\<lambda>c. True) execv_binary (example_run []) 1000 1000 False =
             (t @ fst (exec_search (\<lambda>c. True) execv_binary
                         (setenv_all init_environ (env (example_run []))) (example_run [])),
              snd (exec_search (\<lambda>c. True) execv_binary
                         (setenv_all init_environ (env (example_run []))) (example_run []))))"
proof -
  let ?env = "setenv_all init_environ [path_var ''/bin:/usr/bin'']"
  have p: "?env ''PATH'' = Some ''/bin:/usr/bin''"
    by (simp add: setenv_all_def setenv_def init_environ_def path_var_def)
  have e: "path_entries ''/bin:/usr/bin'' = [''/bin'', ''/usr/bin'']"
    by (simp add: path_entries_def)
  have c: "cmd (example_run []) = ''ls''" "arg (example_run []) = [''-l'']"
    "limit (example_run []) = []" "env (example_run []) = []"
    by (simp_all add: example_run_def)
  have 1: "exec_search (\<lambda>c. True) execv_second ?env (example_run [])
     = ([Malloc 17, Execv ''/bin/ls'' [''ls'', ''-l''], Execv ''/usr/bin/ls'' [''ls'', ''-l''],
         Execv ''/bin/bash'' [''/bin/bash'', ''/usr/bin/ls'', ''-l''],
         Printf ''ls? Permission denied''], Exited 1)"
    using exec_search_follows_path [where r = "example_run []" and ok = "\<lambda>c. True"
      and environ = ?env and p = "''/bin:/usr/bin''" and execv = execv_second
      and pre = "[''/bin'']" and d = "''/usr/bin''" and post = "[]" and errs = "[EACCES]"]
    by (simp add: p e c candidate_def execv_second_def DEFAULT_SHELL_def strerror_def)
  have 2: "exec_search (\<lambda>c. True) execv_binary ?env (example_run [])
     = ([Malloc 17, Execv ''/bin/ls'' [''ls'', ''-l'']], Image ''/bin/ls'' [''ls'', ''-l''])"
    using exec_search_follows_path [where r = "example_run []" and ok = "\<lambda>c. True"
      and environ = ?env and p = "''/bin:/usr/bin''" and execv = execv_binary
      and pre = "[]" and d = "''/bin''" and post = "[''/usr/bin'']" and errs = "[]"]
    by (simp add: p e c candidate_def execv_binary_def)
  have 3: "exec_search (\<lambda>c. True) execv_none ?env (example_run [])
     = ([Malloc 17, Execv ''/bin/ls'' [''ls'', ''-l''], Execv ''/usr/bin/ls'' [''ls'', ''-l''],
         Printf ''ls? Permission denied''], Exited 1)"
    using exec_search_follows_path [where r = "example_run []" and ok = "\<lambda>c. True"
      and environ = ?env and p = "''/bin:/usr/bin''" and execv = execv_none
      and errs = "[EACCES, ENOENT]"]
    by (simp add: p e c candidate_def execv_none_def strerror_def)
  have 4: "exec_search (\<lambda>c. True) execv_script Map.empty (example_run [])
     = exec_search (\<lambda>c. True) execv_script [''PATH'' \<mapsto> DEFAULT_PATH] (example_run [])"
    using exec_search_follows_path [where r = "example_run []" and ok = "\<lambda>c. True"
      and environ = Map.empty and execv = execv_script]
    by simp
  let ?r = "(example_run []) \<lparr>env := [path_var ''/bin:/usr/bin'']\<rparr>"
  have "\<exists>t. filter is_execv t = []
           \<and> child_main (\<lambda>c. True) execv_none ?r 1000 1000 False =
               (t @ fst (exec_search (\<lambda>c. True) execv_none (setenv_all init_environ (env ?r)) ?r),
                snd (exec_search (\<lambda>c. True) execv_none (setenv_all init_environ (env ?r)) ?r))"
    using exec_search_follows_path [where r = ?r and execv = execv_none and u = 1000 and g = 1000
      and has_cat = False]
    by (simp add: c)
  then obtain t where t: "filter is_execv t = []"
    "child_main (\<lambda>c. True) execv_none ?r 1000 1000 False =
       (t @ fst (exec_search (\<lambda>c. True) execv_none ?env ?r),
        snd (exec_search (\<lambda>c. True) execv_none ?env ?r))"
    by auto
  have s: "exec_search (\<lambda>c. True) execv_none ?env ?r
      = exec_search (\<lambda>c. True) execv_none ?env (example_run [])"
    by (simp add: exec_search_def)
  have 5: "filter is_execv (fst (child_main (\<lambda>c. True) execv_none ?r 1000 1000 False))
     = [Execv ''/bin/ls'' [''ls'', ''-l''], Execv ''/usr/bin/ls'' [''ls'', ''-l'']]"
    unfolding t(2) s 3 using t(1) by simp
  have e: "filter is_execv (fst (child_main (\<lambda>c. True) execv_binary (example_run []) 1000 1000 False))
      \<noteq> []"
    by (simp add: child_main_def example_run_def open_to_def or_null_def must_def emit_def
        hostify_def exec_search_def search_path_def setenv_all_def init_environ_def
        DEFAULT_PATH_def Let_def exec_loop.simps next_candidate_def execv_binary_def)
  have 6: "\<exists>t. filter is_execv t = []
         \<and> child_main (\<lambda>c. True) execv_binary (example_run []) 1000 1000 False =
             (t @ fst (exec_search (\<lambda>c. True) execv_binary
                         (setenv_all init_environ (env (example_run []))) (example_run [])),
              snd (exec_search (\<lambda>c. True) execv_binary
                         (setenv_all init_environ (env (example_run []))) (example_run [])))"
    using exec_search_follows_path [where ok = "\<lambda>c. True" and execv = execv_binary
      and r = "example_run []" and u = 1000 and g = 1000 and has_cat = False] e
    by blast
  from 1 2 3 4 5 6 show ?thesis by (intro conjI)
qed

subsection \<open>The sequence of Runs and the timeout tokens\<close>

lemma called_runs_append: "called_runs (s @ t) = called_runs s @ called_runs t"
  by (induction s rule: called_runs.induct) auto

lemma called_runs_and_then:
  "called_runs (fst (and_then m f)) =
     (case snd m of Done v \<Rightarrow> called_runs (fst m) @ called_runs (fst (f v))
      | Exited n \<Rightarrow> called_runs (fst m) | Image p a \<Rightarrow> called_runs (fst m)
      | Blocked \<Rightarrow> called_runs (fst m))"
  by (simp add: fst_and_then called_runs_append split: outcome.splits)

lemma no_run_and_then: "no_run m \<Longrightarrow> (\<And>v. no_run (f v)) \<Longrightarrow> no_run (and_then m f)"
  by (simp add: no_run_def called_runs_and_then split: outcome.splits)

lemma no_run_fail: "no_run (fail i msg)"
  by (simp add: no_run_def fail_def)

lemma no_run_emit: "called_runs t = [] \<Longrightarrow> no_run (emit t)"
  by (simp add: no_run_def emit_def)

lemma called_runs_Cons: "called_runs (c # t) = called_runs [c] @ called_runs t"
  using called_runs_append [of "[c]" t] by simp

lemma no_run_nil: "no_run ([], x)"
  by (simp add: no_run_def)

lemma no_run_must: "called_runs [c] = [] \<Longrightarrow> no_run (must ok i msg c)"
  by (cases c) (simp_all add: must_def emit_def no_run_def fail_def)

lemma no_run_for_each: "(\<And>x. no_run (f x)) \<Longrightarrow> no_run (for_each f xs)"
  by (induction xs) (auto intro!: no_run_and_then no_run_emit)

lemma no_run_mkdirs_parts: "no_run (mkdirs_parts ok ps)"
  by (induction ps) (auto intro!: no_run_and_then no_run_emit no_run_must)

lemma no_run_handle_mount: "no_run (handle_mount ok m)"
  unfolding handle_mount_def mkdirs_def Let_def
  by (intro no_run_and_then no_run_emit no_run_must no_run_mkdirs_parts) simp_all

lemma no_run_handle_tty_raw: "no_run (handle_tty_raw ok d)"
  unfolding handle_tty_raw_def
  by (intro no_run_and_then no_run_emit no_run_must) simp_all

lemma no_run_handle_random: "no_run (handle_random ok bs)"
  unfolding handle_random_def
  by (intro no_run_and_then no_run_emit no_run_must) simp_all

lemma no_run_prepare: "no_run (prepare ge cfg)"
  unfolding prepare_def
  by (auto intro!: no_run_and_then no_run_for_each no_run_handle_mount no_run_handle_tty_raw
      no_run_handle_random no_run_emit)

lemma no_run_one: "called_runs [c] = [] \<Longrightarrow> no_run ([c], x)"
  by (simp add: no_run_def)

lemma no_run_wait_loop: "no_run (wait_loop child cat cr kr t es)"
  by (induction child cat cr kr t es rule: wait_loop.induct)
    (auto simp: Let_def no_run_fail no_run_nil no_run_one
      intro!: no_run_and_then no_run_emit no_run_fail)

lemma no_run_must_fork: "no_run (must_fork res)"
  unfolding must_fork_def
  by (simp add: no_run_def emit_def fail_def split: option.splits)

lemma called_runs_after_emit:
  "no_run (f ()) \<Longrightarrow> called_runs (fst (and_then (emit (CallRun r # t)) f)) = r # called_runs t"
  by (simp add: emit_def no_run_def called_runs_append)

lemma called_runs_handle_run: "called_runs (fst (handle_run ok re r)) = [r]"
proof -
  have "called_runs (fst (handle_run ok re r)) = r # called_runs [Printf (''umlbox run: '' @ cmd r)]"
    unfolding handle_run_def
    by (rule called_runs_after_emit)
      (auto intro!: no_run_and_then no_run_must no_run_must_fork no_run_nil no_run_emit
        no_run_wait_loop)
  then show ?thesis by simp
qed

lemma run_loop_timed_out:
  assumes "\<forall>j<length pre. snd (handle_run ok (re (i + j)) (pre ! j)) = Done False"
    and "snd (handle_run ok (re (i + length pre)) r) = Done True"
  shows "called_runs (fst (run_loop ok re i (pre @ r # rs))) = pre @ [r]
         \<and> snd (run_loop ok re i (pre @ r # rs)) = Done ()"
  using assms
proof (induction pre arbitrary: i)
  case Nil
  then show ?case
    by (simp add: called_runs_and_then snd_and_then called_runs_handle_run emit_def)
next
  case (Cons x pre)
  from Cons.prems(1) have x: "snd (handle_run ok (re i) x) = Done False" by force
  have "\<forall>j<length pre. snd (handle_run ok (re (Suc i + j)) (pre ! j)) = Done False"
  proof (intro allI impI)
    fix j assume "j < length pre"
    then have "Suc j < length (x # pre)" by simp
    from Cons.prems(1) [rule_format, OF this] show "snd (handle_run ok (re (Suc i + j)) (pre ! j)) = Done False"
      by simp
  qed
  moreover from Cons.prems(2) have "snd (handle_run ok (re (Suc i + length pre)) r) = Done True"
    by simp
  ultimately have "called_runs (fst (run_loop ok re (Suc i) (pre @ r # rs))) = pre @ [r]
         \<and> snd (run_loop ok re (Suc i) (pre @ r # rs)) = Done ()"
    by (rule Cons.IH)
  with x show ?case
    by (simp add: called_runs_and_then snd_and_then called_runs_handle_run)
qed

lemma wait_loop_timed_out: "snd (wait_loop child cat cr kr True es) \<noteq> Done False"
  by (induction child cat cr kr "True" es rule: wait_loop.induct)
    (auto simp: Let_def fail_def emit_def snd_and_then)

lemma wait_loop_control: "snd (wait_loop child cat cr kr t (Control c k # es)) \<noteq> Done False"
  using wait_loop_timed_out [of child cat cr kr es]
  by (auto simp: fail_def emit_def snd_and_then)

lemma handle_run_daemon: "daemon r \<Longrightarrow> snd (handle_run ok re r) \<noteq> Done True"
  by (auto simp: handle_run_def snd_and_then must_def must_fork_def emit_def fail_def
      split: outcome.splits option.splits)

lemma execute_config_runs:
  "called_runs (fst (execute_config ge cfg)) =
     (if snd (prepare ge cfg) = Done ()
      then called_runs (fst (run_loop (sys_ok ge) (run_envs ge) 0 (run cfg))) else [])"
  using no_run_prepare [of ge cfg]
  by (auto simp: execute_config_def called_runs_and_then no_run_def split: outcome.splits)

lemma left_running_append: "left_running ps (s @ t) = left_running (left_running ps s) t"
  by (induction ps s rule: left_running.induct) simp_all

lemma wait_loop_append:
  "snd (wait_loop ch cat cr kr t w) = Blocked \<Longrightarrow>
   \<exists>cr' kr' t'. (cr' \<longrightarrow> cr) \<and> (Reaped ch \<notin> set w \<longrightarrow> cr' = cr) \<and>
      (\<forall>es. wait_loop ch cat cr kr t (w @ es) =
         (fst (wait_loop ch cat cr kr t w) @ fst (wait_loop ch cat cr' kr' t' es),
          snd (wait_loop ch cat cr' kr' t' es)))"
proof (induction ch cat cr kr t w rule: wait_loop.induct)
  case (1 child cat child_running cat_running timed_out)
  show ?case
    by (rule exI [of _ child_running], rule exI [of _ cat_running], rule exI [of _ timed_out]) simp
next
  case (2 child cat child_running cat_running timed_out waited es)
  let ?cr = "if waited = child then False else child_running"
  let ?kr = "if Some waited = cat then False else cat_running"
  from "2.prems" have go: "\<not> (\<not> ?cr \<and> \<not> ?kr)"
    by (auto simp: Let_def split: if_splits)
  from go have e: "wait_loop child cat child_running cat_running timed_out (Reaped waited # es)
      = and_then (emit [Waitpid waited]) (\<lambda>u. wait_loop child cat ?cr ?kr timed_out es)"
    by (auto simp: Let_def split: if_splits)
  from "2.prems" have b: "snd (wait_loop child cat ?cr ?kr timed_out es) = Blocked"
    unfolding e by (simp add: emit_def snd_and_then)
  from "2.IH" [OF refl refl go b] obtain cr' kr' t' where
    i: "(cr' \<longrightarrow> ?cr)" "(Reaped child \<notin> set es \<longrightarrow> cr' = ?cr)"
       "\<forall>es'. wait_loop child cat ?cr ?kr timed_out (es @ es') =
         (fst (wait_loop child cat ?cr ?kr timed_out es) @ fst (wait_loop child cat cr' kr' t' es'),
          snd (wait_loop child cat cr' kr' t' es'))" by blast
  show ?case
    apply (rule exI [of _ cr'], rule exI [of _ kr'], rule exI [of _ t'])
    using i go by (auto simp: Let_def emit_def split: if_splits)
next
  case (3 child cat child_running cat_running timed_out es)
  then show ?case by (simp add: fail_def)
next
  case (4 child cat child_running cat_running timed_out es)
  then show ?case by simp
next
  case (5 child cat child_running cat_running timed_out es)
  then show ?case by (simp add: fail_def)
next
  case (6 child cat child_running cat_running timed_out es)
  then show ?case by (simp add: fail_def)
next
  case (7 child cat child_running cat_running timed_out c kill_ok es)
  from "7.prems" have ny: "c \<noteq> CHR ''Y''" by (auto split: if_splits)
  show ?case
  proof (cases child_running)
    case True
    with "7.prems" ny have k: kill_ok by (auto simp: fail_def emit_def split: if_splits)
    from "7.prems" ny True k have b: "snd (wait_loop child cat child_running cat_running True es) = Blocked"
      by (simp add: emit_def snd_and_then)
    from "7.IH"(1) [OF ny True k b] obtain cr' kr' t' where
      i: "(cr' \<longrightarrow> child_running)" "(Reaped child \<notin> set es \<longrightarrow> cr' = child_running)"
       "\<forall>es'. wait_loop child cat child_running cat_running True (es @ es') =
         (fst (wait_loop child cat child_running cat_running True es) @ fst (wait_loop child cat cr' kr' t' es'),
          snd (wait_loop child cat cr' kr' t' es'))" by blast
    show ?thesis
      apply (rule exI [of _ cr'], rule exI [of _ kr'], rule exI [of _ t'])
      using i ny True k by (simp add: emit_def)
  next
    case False
    from "7.prems" ny False have b: "snd (wait_loop child cat child_running cat_running True es) = Blocked"
      by simp
    from "7.IH"(2) [OF ny False b] obtain cr' kr' t' where
      i: "(cr' \<longrightarrow> child_running)" "(Reaped child \<notin> set es \<longrightarrow> cr' = child_running)"
       "\<forall>es'. wait_loop child cat child_running cat_running True (es @ es') =
         (fst (wait_loop child cat child_running cat_running True es) @ fst (wait_loop child cat cr' kr' t' es'),
          snd (wait_loop child cat cr' kr' t' es'))" by blast
    show ?thesis
      apply (rule exI [of _ cr'], rule exI [of _ kr'], rule exI [of _ t'])
      using i ny False by simp
  qed
qed

lemma handle_run_foreground:
  assumes "\<not> daemon r" "ok (Sigprocmask True)" "child_fork re = Some child"
    "cat_output r \<longrightarrow> ok Pipe \<and> cat_fork re = Some catp"
  shows "handle_run ok re r =
     and_then ([CallRun r, Printf (''umlbox run: '' @ cmd r), Sigprocmask True]
                @ (if cat_output r then [Pipe, Fork catp] else []) @ [Fork child]
                @ (if cat_output r then [Close ''cat_pipe[0]'', Close ''cat_pipe[1]''] else []),
               Done ())
       (\<lambda>u. and_then (wait_loop child (if cat_output r then Some catp else None) True
                          (cat_output r) False (waits re))
          (\<lambda>t. and_then (must ok True ''sigprocmask (unblock SIGCHLD)'' (Sigprocmask False))
                 (\<lambda>x. ([], Done t))))"
proof (cases "cat_output r")
  case True
  with assms show ?thesis
    by (simp add: handle_run_def must_def must_fork_def emit_def)
next
  case False
  with assms show ?thesis
    by (simp add: handle_run_def must_def must_fork_def emit_def)
qed

lemma handle_run_fails:
  assumes "\<not> (ok (Sigprocmask True) \<and> child_fork re \<noteq> None
             \<and> (cat_output r \<longrightarrow> ok Pipe \<and> cat_fork re \<noteq> None))"
  shows "snd (handle_run ok re r) = Exited 1"
  using assms
  by (auto simp: handle_run_def must_def must_fork_def emit_def fail_def snd_and_then
      split: option.splits)

lemma handle_run_result:
  assumes "\<not> daemon r" and "snd (handle_run ok re r) = Done b"
  shows "\<exists>child. child_fork re = Some child
     \<and> snd (wait_loop child (if cat_output r then cat_fork re else None) True (cat_output r)
               False (waits re)) = Done b"
proof -
  have "ok (Sigprocmask True) \<and> child_fork re \<noteq> None
             \<and> (cat_output r \<longrightarrow> ok Pipe \<and> cat_fork re \<noteq> None)"
  proof (rule ccontr)
    assume "\<not> (ok (Sigprocmask True) \<and> child_fork re \<noteq> None
             \<and> (cat_output r \<longrightarrow> ok Pipe \<and> cat_fork re \<noteq> None))"
    then have "snd (handle_run ok re r) = Exited 1" by (rule handle_run_fails)
    with assms(2) show False by simp
  qed
  then have h: "ok (Sigprocmask True)" "child_fork re \<noteq> None"
    "cat_output r \<longrightarrow> ok Pipe \<and> cat_fork re \<noteq> None"
    by simp_all
  then obtain child where c: "child_fork re = Some child" by auto
  obtain catp where k: "cat_output r \<longrightarrow> ok Pipe \<and> cat_fork re = Some catp"
    using h(3) by (cases "cat_output r") auto
  have e: "(if cat_output r then Some catp else None) = (if cat_output r then cat_fork re else None)"
    using k by simp
  from assms(2) have "snd (wait_loop child (if cat_output r then Some catp else None) True (cat_output r)
               False (waits re)) = Done b"
    unfolding handle_run_foreground [OF assms(1) h(1) c k]
    by (auto simp: snd_and_then must_def fail_def split: outcome.splits if_splits)
  with c e show ?thesis by simp
qed

lemma handle_run_same_outcome:
  assumes "\<not> daemon r" "ok (Sigprocmask True)" "ok (Sigprocmask False)" "child_fork re = Some child"
    "cat_output r \<longrightarrow> ok Pipe \<and> cat_fork re = Some catp"
  shows "snd (handle_run ok re r) =
     snd (wait_loop child (if cat_output r then Some catp else None) True (cat_output r) False
            (waits re))"
  unfolding handle_run_foreground [OF assms(1,2,4,5)]
  using assms(3) by (auto simp: snd_and_then must_def split: outcome.splits)

lemma handle_run_after_control:
  assumes "\<not> daemon r" and "child_fork re = Some child" and "waits re = w @ Control c k # es"
    and "snd (wait_loop child (if cat_output r then cat_fork re else None) True (cat_output r)
               False w) = Blocked"
  shows "snd (handle_run ok re r) \<noteq> Done False"
proof
  assume "snd (handle_run ok re r) = Done False"
  from handle_run_result [OF assms(1) this] assms(2)
  have d: "snd (wait_loop child (if cat_output r then cat_fork re else None) True (cat_output r)
               False (w @ Control c k # es)) = Done False"
    by (simp add: assms(3))
  from wait_loop_append [OF assms(4)] obtain cr' kr' t' where
    "\<forall>es. wait_loop child (if cat_output r then cat_fork re else None) True (cat_output r) False (w @ es) =
         (fst (wait_loop child (if cat_output r then cat_fork re else None) True (cat_output r) False w)
            @ fst (wait_loop child (if cat_output r then cat_fork re else None) cr' kr' t' es),
          snd (wait_loop child (if cat_output r then cat_fork re else None) cr' kr' t' es))" by blast
  then have "snd (wait_loop child (if cat_output r then cat_fork re else None) True (cat_output r) False
                (w @ Control c k # es))
        = snd (wait_loop child (if cat_output r then cat_fork re else None) cr' kr' t' (Control c k # es))"
    by (simp del: wait_loop.simps)
  with d wait_loop_control [of child "if cat_output r then cat_fork re else None" cr' kr' t' c k es]
  show False by (simp del: wait_loop.simps)
qed

lemma run_loop_stops:
  assumes "\<forall>j<length pre. snd (handle_run ok (re (i + j)) (pre ! j)) = Done False"
    and "snd (handle_run ok (re (i + length pre)) r) \<noteq> Done False"
  shows "called_runs (fst (run_loop ok re i (pre @ r # rs))) = pre @ [r]"
  using assms
proof (induction pre arbitrary: i)
  case Nil
  then show ?case
    by (cases "snd (handle_run ok (re i) r)")
      (auto simp: called_runs_and_then called_runs_handle_run emit_def)
next
  case (Cons x pre)
  from Cons.prems(1) have x: "snd (handle_run ok (re i) x) = Done False" by force
  have "\<forall>j<length pre. snd (handle_run ok (re (Suc i + j)) (pre ! j)) = Done False"
  proof (intro allI impI)
    fix j assume "j < length pre"
    then have "Suc j < length (x # pre)" by simp
    from Cons.prems(1) [rule_format, OF this] show "snd (handle_run ok (re (Suc i + j)) (pre ! j)) = Done False"
      by simp
  qed
  moreover from Cons.prems(2) have "snd (handle_run ok (re (Suc i + length pre)) r) \<noteq> Done False"
    by simp
  ultimately have "called_runs (fst (run_loop ok re (Suc i) (pre @ r # rs))) = pre @ [r]"
    by (rule Cons.IH)
  with x show ?case
    by (simp add: called_runs_and_then called_runs_handle_run)
qed

lemma run_loop_trace:
  assumes "\<forall>j<length pre. snd (handle_run ok (re (i + j)) (pre ! j)) = Done False"
    and "snd (handle_run ok (re (i + length pre)) r) = Done True"
  shows "\<exists>t. run_loop ok re i (pre @ r # rs) = (t @ fst (handle_run ok (re (i + length pre)) r), Done ())"
  using assms
proof (induction pre arbitrary: i)
  case Nil
  then have "run_loop ok re i ([] @ r # rs) = ([] @ fst (handle_run ok (re (i + length ([] :: Run list))) r), Done ())"
    by (cases "handle_run ok (re i) r") (simp add: emit_def)
  then show ?case ..
next
  case (Cons x pre)
  from Cons.prems(1) have x: "snd (handle_run ok (re i) x) = Done False" by force
  have "\<forall>j<length pre. snd (handle_run ok (re (Suc i + j)) (pre ! j)) = Done False"
  proof (intro allI impI)
    fix j assume "j < length pre"
    then have "Suc j < length (x # pre)" by simp
    from Cons.prems(1) [rule_format, OF this] show "snd (handle_run ok (re (Suc i + j)) (pre ! j)) = Done False"
      by simp
  qed
  moreover from Cons.prems(2) have "snd (handle_run ok (re (Suc i + length pre)) r) = Done True"
    by simp
  ultimately obtain t where
    t: "run_loop ok re (Suc i) (pre @ r # rs) = (t @ fst (handle_run ok (re (Suc i + length pre)) r), Done ())"
    using Cons.IH by blast
  from x t have "run_loop ok re i ((x # pre) @ r # rs)
      = ((fst (handle_run ok (re i) x) @ t) @ fst (handle_run ok (re (i + length (x # pre))) r), Done ())"
    by (cases "handle_run ok (re i) x") simp
  then show ?case ..
qed

lemma handle_run_hard_token:
  assumes "\<not> daemon r" "ok (Sigprocmask True)" "ok (Sigprocmask False)" "child_fork re = Some child"
    "cat_output r \<longrightarrow> ok Pipe \<and> cat_fork re = Some catp"
    and "waits re = w @ Control CHR ''Y'' k # es"
    and "snd (wait_loop child (if cat_output r then Some catp else None) True (cat_output r) False w)
           = Blocked"
  shows "handle_run ok re r
           = (fst (handle_run ok (re\<lparr>waits := w\<rparr>) r) @ [Sigprocmask False], Done True)"
proof -
  let ?cat = "if cat_output r then Some catp else None"
  obtain tw where tw: "wait_loop child ?cat True (cat_output r) False w = (tw, Blocked)"
    using assms(7) by (cases "wait_loop child ?cat True (cat_output r) False w") simp
  from wait_loop_append [OF assms(7)] obtain cr' kr' t' where
    "\<forall>es. wait_loop child ?cat True (cat_output r) False (w @ es) =
         (fst (wait_loop child ?cat True (cat_output r) False w) @ fst (wait_loop child ?cat cr' kr' t' es),
          snd (wait_loop child ?cat cr' kr' t' es))" by blast
  then have "wait_loop child ?cat True (cat_output r) False (w @ Control CHR ''Y'' k # es) =
         (fst (wait_loop child ?cat True (cat_output r) False w)
            @ fst (wait_loop child ?cat cr' kr' t' (Control CHR ''Y'' k # es)),
          snd (wait_loop child ?cat cr' kr' t' (Control CHR ''Y'' k # es)))" by blast
  then have full: "wait_loop child ?cat True (cat_output r) False (waits re) = (tw, Done True)"
    by (simp add: assms(6) tw)
  have c2: "child_fork (re\<lparr>waits := w\<rparr>) = Some child"
    "cat_output r \<longrightarrow> ok Pipe \<and> cat_fork (re\<lparr>waits := w\<rparr>) = Some catp"
    using assms(4,5) by simp_all
  show ?thesis
    unfolding handle_run_foreground [OF assms(1,2,4,5)] handle_run_foreground [OF assms(1,2) c2]
    using assms(3) by (simp add: full tw must_def)
qed

lemma left_running_wait_loop:
  "snd (wait_loop ch cat cr kr t w) = Blocked \<Longrightarrow> p \<in> set ps \<Longrightarrow> Reaped p \<notin> set w \<Longrightarrow>
   p \<in> set (left_running ps (fst (wait_loop ch cat cr kr t w)))"
proof (induction ch cat cr kr t w arbitrary: ps rule: wait_loop.induct)
  case (2 child cat child_running cat_running timed_out waited es)
  let ?cr = "if waited = child then False else child_running"
  let ?kr = "if Some waited = cat then False else cat_running"
  from "2.prems"(1) have go: "\<not> (\<not> ?cr \<and> \<not> ?kr)"
    by (auto simp: Let_def split: if_splits)
  from go have e: "wait_loop child cat child_running cat_running timed_out (Reaped waited # es)
      = and_then (emit [Waitpid waited]) (\<lambda>u. wait_loop child cat ?cr ?kr timed_out es)"
    by (auto simp: Let_def split: if_splits)
  from "2.prems"(1) have b: "snd (wait_loop child cat ?cr ?kr timed_out es) = Blocked"
    unfolding e by (simp add: emit_def snd_and_then)
  from "2.prems" have "p \<in> set (removeAll waited ps)" "Reaped p \<notin> set es" by auto
  from "2.IH" [OF refl refl go b this]
  show ?case unfolding e by (simp add: emit_def)
next
  case (7 child cat child_running cat_running timed_out c kill_ok es)
  from "7.prems"(1) have ny: "c \<noteq> CHR ''Y''" by (auto split: if_splits)
  from "7.prems" have r: "Reaped p \<notin> set es" by simp
  show ?case
  proof (cases child_running)
    case True
    with "7.prems"(1) ny have k: kill_ok by (auto simp: fail_def emit_def split: if_splits)
    from "7.prems"(1) ny True k have b: "snd (wait_loop child cat child_running cat_running True es) = Blocked"
      by (simp add: emit_def snd_and_then)
    from "7.IH"(1) [OF ny True k b "7.prems"(2) r] ny True k show ?thesis
      by (simp add: emit_def)
  next
    case False
    from "7.prems"(1) ny False have b: "snd (wait_loop child cat child_running cat_running True es) = Blocked"
      by simp
    from "7.IH"(2) [OF ny False b "7.prems"(2) r] ny False show ?thesis by simp
  qed
qed (simp_all add: fail_def)

lemma handle_run_leaves_child:
  assumes "\<not> daemon r" "ok (Sigprocmask True)" "ok (Sigprocmask False)" "child_fork re = Some child"
    "cat_output r \<longrightarrow> ok Pipe \<and> cat_fork re = Some catp"
    and "waits re = w @ Control CHR ''Y'' k # es"
    and "snd (wait_loop child (if cat_output r then Some catp else None) True (cat_output r) False w)
           = Blocked"
    and "0 < child" and "Reaped child \<notin> set w"
  shows "child \<in> set (left_running [] (fst (handle_run ok re r)))"
proof -
  let ?cat = "if cat_output r then Some catp else None"
  let ?head = "[CallRun r, Printf (''umlbox run: '' @ cmd r), Sigprocmask True]
                @ (if cat_output r then [Pipe, Fork catp] else []) @ [Fork child]
                @ (if cat_output r then [Close ''cat_pipe[0]'', Close ''cat_pipe[1]''] else [])"
  obtain tw where tw: "wait_loop child ?cat True (cat_output r) False w = (tw, Blocked)"
    using assms(7) by (cases "wait_loop child ?cat True (cat_output r) False w") simp
  have c2: "child_fork (re\<lparr>waits := w\<rparr>) = Some child"
    "cat_output r \<longrightarrow> ok Pipe \<and> cat_fork (re\<lparr>waits := w\<rparr>) = Some catp"
    using assms(4,5) by simp_all
  have t: "fst (handle_run ok re r) = ?head @ tw @ [Sigprocmask False]"
    unfolding handle_run_hard_token [OF assms(1-7)] handle_run_foreground [OF assms(1,2) c2]
    by (simp add: tw)
  have h: "child \<in> set (left_running [] ?head)"
    using assms(8) by simp
  from left_running_wait_loop [OF assms(7) h assms(9)]
  have "child \<in> set (left_running (left_running [] ?head) tw)" by (simp add: tw)
  then show ?thesis
    unfolding t by (simp add: left_running_append)
qed

lemma avoids_mkdirs_parts:
  "\<not> P PowerOff \<Longrightarrow> (\<And>s. \<not> P (Printf s)) \<Longrightarrow> (\<And>s. \<not> P (Chdir s)) \<Longrightarrow> (\<And>s. \<not> P (Mkdir s))
   \<Longrightarrow> avoids P (mkdirs_parts ok ps)"
  by (induction ps) (auto intro!: avoids_and_then avoids_must avoids_emit)

lemma avoids_handle_mount:
  assumes "\<not> P PowerOff" "\<And>s. \<not> P (Printf s)" "\<And>s. \<not> P (Chdir s)" "\<And>s. \<not> P (Mkdir s)"
    "\<And>m. \<not> P (CallMount m)" "\<And>s t f g d. \<not> P (MountSys s t f g d)"
  shows "avoids P (handle_mount ok m)"
  unfolding handle_mount_def mkdirs_def Let_def
  by (intro avoids_and_then avoids_must avoids_emit avoids_mkdirs_parts) (simp_all add: assms)

lemma never_sigkill: "avoids is_sigkill (execute_config ge cfg)"
proof -
  have p: "avoids is_sigkill (prepare ge cfg)"
    unfolding prepare_def
    by (auto intro!: avoids_and_then avoids_for_each avoids_handle_mount avoids_handle_tty_raw
        avoids_handle_random avoids_emit)
  have r: "avoids is_sigkill (run_loop (sys_ok ge) (run_envs ge) 0 (run cfg))"
    by (rule avoids_run_loop) simp_all
  have e: "avoids is_sigkill (([Sync, PowerOff], Exited 0) :: unit step)"
    by (simp add: avoids_def)
  show ?thesis
    unfolding execute_config_def
    by (intro avoids_and_then p r e)
qed

lemma execute_config_hard_token:
  assumes "snd (prepare ge cfg) = Done ()"
    and "\<forall>j<length pre. snd (handle_run (sys_ok ge) (run_envs ge j) (pre ! j)) = Done False"
    and "run cfg = pre @ r # rs"
    and "\<not> daemon r" "sys_ok ge (Sigprocmask True)" "sys_ok ge (Sigprocmask False)"
      "child_fork (run_envs ge (length pre)) = Some child"
      "cat_output r \<longrightarrow> sys_ok ge Pipe \<and> cat_fork (run_envs ge (length pre)) = Some catp"
    and "waits (run_envs ge (length pre)) = w @ Control CHR ''Y'' k # es"
    and "snd (wait_loop child (if cat_output r then Some catp else None) True (cat_output r) False w)
           = Blocked"
  shows "\<exists>t. execute_config ge cfg =
           (t @ fst (handle_run (sys_ok ge) ((run_envs ge (length pre))\<lparr>waits := w\<rparr>) r)
              @ [Sigprocmask False, Sync, PowerOff], Exited 0)"
proof -
  note h = handle_run_hard_token [OF assms(4-10)]
  from h have d: "snd (handle_run (sys_ok ge) (run_envs ge (0 + length pre)) r) = Done True" by simp
  from assms(2) have a: "\<forall>j<length pre. snd (handle_run (sys_ok ge) (run_envs ge (0 + j)) (pre ! j)) = Done False"
    by simp
  from run_loop_trace [OF a d, of rs] obtain t where
    t: "run_loop (sys_ok ge) (run_envs ge) 0 (pre @ r # rs)
          = (t @ fst (handle_run (sys_ok ge) (run_envs ge (0 + length pre)) r), Done ())" by blast
  obtain tp where tp: "prepare ge cfg = (tp, Done ())"
    using assms(1) by (cases "prepare ge cfg") simp
  have "execute_config ge cfg =
           ((tp @ t) @ fst (handle_run (sys_ok ge) ((run_envs ge (length pre))\<lparr>waits := w\<rparr>) r)
              @ [Sigprocmask False, Sync, PowerOff], Exited 0)"
    using t by (simp add: execute_config_def tp assms(3) h)
  then show ?thesis ..
qed

lemma wait_loop_never_sigkill:
  "Kill p SIGKILL \<notin> set (fst (wait_loop child cat cr kr t es))"
  by (induction child cat cr kr t es rule: wait_loop.induct)
    (auto simp: Let_def fail_def emit_def fst_and_then split: outcome.splits)

lemma example_first_run: "handle_run (\<lambda>c. True) (run_envs (example_env w) 0) (named_run ''ip'') =
   ([CallRun (named_run ''ip''), Printf ''umlbox run: ip'', Sigprocmask True, Fork 10, Waitpid 10, Sigprocmask False], Done False)"
  by (simp add: handle_run_def example_env_def named_run_def example_run_def emit_def must_def must_fork_def)

lemma example_soft_token: "handle_run (\<lambda>c. True) (run_envs (example_env [Control CHR ''N'' True, Reaped 11]) 1) (named_run ''ls'') =
   ([CallRun (named_run ''ls''), Printf ''umlbox run: ls'', Sigprocmask True, Fork 11, Kill 11 SIGTERM, Waitpid 11, Sigprocmask False], Done True)"
  by (simp add: handle_run_def example_env_def named_run_def example_run_def emit_def must_def must_fork_def)

lemma example_cat_run:
  "handle_run (\<lambda>c. True) (cat_env [Control CHR ''N'' True, Reaped 21, Reaped 20]) cat_run =
     ([CallRun cat_run, Printf ''umlbox run: ls'', Sigprocmask True, Pipe, Fork 20, Fork 21,
       Close ''cat_pipe[0]'', Close ''cat_pipe[1]'', Kill 21 SIGTERM, Waitpid 21, Waitpid 20,
       Sigprocmask False], Done True)"
  by (simp add: handle_run_def cat_env_def cat_run_def named_run_def example_run_def emit_def
      must_def must_fork_def)

text \<open>
  Claim C5. A turn of the wait loop that reads a control byte never lets the loop end with
  not timed out, and a daemon \<open>Run\<close> is never reported as timed out. What \<open>handle_run\<close>
  returns for a foreground \<open>Run\<close> is what its wait loop ends with, with a \<open>cat\<close>
  process or without (given that the signal mask, the pipe and the forks succeed; in any
  case a value it returns is the one the loop ended with). So a foreground \<open>Run\<close> whose
  wait, still going on after the events \<open>w\<close>, then reads a control byte does not come
  back as not timed out. When the Runs before \<open>r\<close> come back not timed out and \<open>r\<close>
  does not, the Runs that are handled are exactly those up to \<open>r\<close>: none of the Runs
  after it is. When \<open>r\<close> comes back timed out, the supervisor goes on to \<open>sync\<close> and
  power-off, with which its list of calls ends. All in one: when the steps before the Runs
  have gone through, the Runs before \<open>r\<close> come back not timed out, and the wait for the
  foreground \<open>Run\<close> \<open>r\<close> reads a control byte and comes to an end, then \<open>handle_run\<close>
  returns timed out for \<open>r\<close>, the Runs handled are those up to \<open>r\<close>, and the supervisor
  ends with \<open>sync\<close> and power-off and status 0.
\<close>

theorem timed_out_run_ends_the_sequence:
  "snd (wait_loop child cat cr kr t (Control c k # es)) \<noteq> Done False
   \<and> (daemon r' \<longrightarrow> snd (handle_run ok re r') \<noteq> Done True)
   \<and> (\<not> daemon r' \<and> ok (Sigprocmask True) \<and> ok (Sigprocmask False)
        \<and> child_fork re = Some child \<and> (cat_output r' \<longrightarrow> ok Pipe \<and> cat_fork re = Some catp) \<longrightarrow>
          snd (handle_run ok re r') =
            snd (wait_loop child (if cat_output r' then Some catp else None) True (cat_output r')
                   False (waits re)))
   \<and> (\<not> daemon r' \<and> snd (handle_run ok re r') = Done b \<longrightarrow>
          (\<exists>pid. child_fork re = Some pid
             \<and> snd (wait_loop pid (if cat_output r' then cat_fork re else None) True
                      (cat_output r') False (waits re)) = Done b))
   \<and> (\<not> daemon r' \<and> child_fork re = Some child \<and> waits re = w @ Control c k # es
        \<and> snd (wait_loop child (if cat_output r' then cat_fork re else None) True
                 (cat_output r') False w) = Blocked \<longrightarrow>
          snd (handle_run ok re r') \<noteq> Done False)
   \<and> ((\<forall>j<length pre. snd (handle_run (sys_ok ge) (run_envs ge j) (pre ! j)) = Done False)
        \<and> snd (handle_run (sys_ok ge) (run_envs ge (length pre)) r) \<noteq> Done False
        \<and> run cfg = pre @ r # rs \<longrightarrow>
          called_runs (fst (execute_config ge cfg))
            = (if snd (prepare ge cfg) = Done () then pre @ [r] else []))
   \<and> ((\<forall>j<length pre. snd (handle_run (sys_ok ge) (run_envs ge j) (pre ! j)) = Done False)
        \<and> snd (handle_run (sys_ok ge) (run_envs ge (length pre)) r) = Done True
        \<and> run cfg = pre @ r # rs \<longrightarrow>
          called_runs (fst (execute_config ge cfg))
            = (if snd (prepare ge cfg) = Done () then pre @ [r] else [])
          \<and> (snd (prepare ge cfg) = Done () \<longrightarrow>
               snd (execute_config ge cfg) = Exited 0
               \<and> (\<exists>t. fst (execute_config ge cfg) = t @ [Sync, PowerOff])))
   \<and> (snd (prepare ge cfg) = Done ()
        \<and> (\<forall>j<length pre. snd (handle_run (sys_ok ge) (run_envs ge j) (pre ! j)) = Done False)
        \<and> run cfg = pre @ r # rs
        \<and> \<not> daemon r \<and> sys_ok ge (Sigprocmask True) \<and> sys_ok ge (Sigprocmask False)
        \<and> child_fork (run_envs ge (length pre)) = Some child
        \<and> (cat_output r \<longrightarrow> sys_ok ge Pipe \<and> cat_fork (run_envs ge (length pre)) = Some catp)
        \<and> waits (run_envs ge (length pre)) = w @ Control c k # es
        \<and> snd (wait_loop child (if cat_output r then Some catp else None) True (cat_output r)
                 False w) = Blocked
        \<and> snd (wait_loop child (if cat_output r then Some catp else None) True (cat_output r)
                 False (w @ Control c k # es)) = Done b \<longrightarrow>
          b \<and> snd (handle_run (sys_ok ge) (run_envs ge (length pre)) r) = Done True
          \<and> called_runs (fst (execute_config ge cfg)) = pre @ [r]
          \<and> snd (execute_config ge cfg) = Exited 0
          \<and> (\<exists>t. fst (execute_config ge cfg) = t @ [Sync, PowerOff]))"
proof (intro conjI impI)
  show "snd (wait_loop child cat cr kr t (Control c k # es)) \<noteq> Done False"
    by (rule wait_loop_control)
next
  assume "daemon r'"
  then show "snd (handle_run ok re r') \<noteq> Done True" by (rule handle_run_daemon)
next
  assume "\<not> daemon r' \<and> ok (Sigprocmask True) \<and> ok (Sigprocmask False)
        \<and> child_fork re = Some child \<and> (cat_output r' \<longrightarrow> ok Pipe \<and> cat_fork re = Some catp)"
  then show "snd (handle_run ok re r') =
            snd (wait_loop child (if cat_output r' then Some catp else None) True (cat_output r')
                   False (waits re))"
    by (intro handle_run_same_outcome) simp_all
next
  assume "\<not> daemon r' \<and> snd (handle_run ok re r') = Done b"
  then have "\<not> daemon r'" "snd (handle_run ok re r') = Done b" by simp_all
  then show "\<exists>pid. child_fork re = Some pid
             \<and> snd (wait_loop pid (if cat_output r' then cat_fork re else None) True
                      (cat_output r') False (waits re)) = Done b"
    by (rule handle_run_result)
next
  assume a: "\<not> daemon r' \<and> child_fork re = Some child \<and> waits re = w @ Control c k # es
        \<and> snd (wait_loop child (if cat_output r' then cat_fork re else None) True
                 (cat_output r') False w) = Blocked"
  then have "\<not> daemon r'" "child_fork re = Some child" "waits re = w @ Control c k # es"
    "snd (wait_loop child (if cat_output r' then cat_fork re else None) True
                 (cat_output r') False w) = Blocked" by simp_all
  then show "snd (handle_run ok re r') \<noteq> Done False"
    by (rule handle_run_after_control)
next
  assume a: "(\<forall>j<length pre. snd (handle_run (sys_ok ge) (run_envs ge j) (pre ! j)) = Done False)
        \<and> snd (handle_run (sys_ok ge) (run_envs ge (length pre)) r) \<noteq> Done False
        \<and> run cfg = pre @ r # rs"
  then have "called_runs (fst (run_loop (sys_ok ge) (run_envs ge) 0 (pre @ r # rs))) = pre @ [r]"
    by (intro run_loop_stops) simp_all
  with a show "called_runs (fst (execute_config ge cfg))
            = (if snd (prepare ge cfg) = Done () then pre @ [r] else [])"
    by (simp add: execute_config_runs)
next
  assume a: "(\<forall>j<length pre. snd (handle_run (sys_ok ge) (run_envs ge j) (pre ! j)) = Done False)
        \<and> snd (handle_run (sys_ok ge) (run_envs ge (length pre)) r) = Done True
        \<and> run cfg = pre @ r # rs"
  then have rl: "called_runs (fst (run_loop (sys_ok ge) (run_envs ge) 0 (pre @ r # rs))) = pre @ [r]
         \<and> snd (run_loop (sys_ok ge) (run_envs ge) 0 (pre @ r # rs)) = Done ()"
    by (intro run_loop_timed_out) simp_all
  from a have c: "run cfg = pre @ r # rs" by simp
  show "called_runs (fst (execute_config ge cfg))
            = (if snd (prepare ge cfg) = Done () then pre @ [r] else [])"
    by (simp add: execute_config_runs c rl)
  {
    assume p: "snd (prepare ge cfg) = Done ()"
    with rl show "snd (execute_config ge cfg) = Exited 0"
      by (simp add: execute_config_def snd_and_then c)
    from p rl show "\<exists>t. fst (execute_config ge cfg) = t @ [Sync, PowerOff]"
      by (simp add: execute_config_def fst_and_then c)
  }
next
  assume a: "snd (prepare ge cfg) = Done ()
        \<and> (\<forall>j<length pre. snd (handle_run (sys_ok ge) (run_envs ge j) (pre ! j)) = Done False)
        \<and> run cfg = pre @ r # rs
        \<and> \<not> daemon r \<and> sys_ok ge (Sigprocmask True) \<and> sys_ok ge (Sigprocmask False)
        \<and> child_fork (run_envs ge (length pre)) = Some child
        \<and> (cat_output r \<longrightarrow> sys_ok ge Pipe \<and> cat_fork (run_envs ge (length pre)) = Some catp)
        \<and> waits (run_envs ge (length pre)) = w @ Control c k # es
        \<and> snd (wait_loop child (if cat_output r then Some catp else None) True (cat_output r)
                 False w) = Blocked
        \<and> snd (wait_loop child (if cat_output r then Some catp else None) True (cat_output r)
                 False (w @ Control c k # es)) = Done b"
  let ?re = "run_envs ge (length pre)"
  let ?cat = "if cat_output r then Some catp else None"
  from a have p: "snd (prepare ge cfg) = Done ()"
    and e: "\<forall>j<length pre. snd (handle_run (sys_ok ge) (run_envs ge j) (pre ! j)) = Done False"
    and c: "run cfg = pre @ r # rs"
    and fg: "\<not> daemon r" "sys_ok ge (Sigprocmask True)" "sys_ok ge (Sigprocmask False)"
      "child_fork ?re = Some child" "cat_output r \<longrightarrow> sys_ok ge Pipe \<and> cat_fork ?re = Some catp"
    and w: "waits ?re = w @ Control c k # es"
    and bl: "snd (wait_loop child ?cat True (cat_output r) False w) = Blocked"
    and d: "snd (wait_loop child ?cat True (cat_output r) False (w @ Control c k # es)) = Done b"
    by simp_all
  have same: "snd (handle_run (sys_ok ge) ?re r)
      = snd (wait_loop child ?cat True (cat_output r) False (waits ?re))"
    using fg by (rule handle_run_same_outcome)
  have ce: "?cat = (if cat_output r then cat_fork ?re else None)"
    using fg(5) by simp
  have nf: "snd (handle_run (sys_ok ge) ?re r) \<noteq> Done False"
    using fg(1) fg(4) w bl [unfolded ce] by (rule handle_run_after_control)
  from same d have hb: "snd (handle_run (sys_ok ge) ?re r) = Done b" by (simp add: w)
  with nf show b: b by (cases b) simp_all
  with hb show t: "snd (handle_run (sys_ok ge) ?re r) = Done True" by simp
  from e t have rl: "called_runs (fst (run_loop (sys_ok ge) (run_envs ge) 0 (pre @ r # rs))) = pre @ [r]
         \<and> snd (run_loop (sys_ok ge) (run_envs ge) 0 (pre @ r # rs)) = Done ()"
    by (intro run_loop_timed_out) simp_all
  show "called_runs (fst (execute_config ge cfg)) = pre @ [r]"
    by (simp add: execute_config_runs c rl p)
  from p rl show "snd (execute_config ge cfg) = Exited 0"
    by (simp add: execute_config_def snd_and_then c)
  from p rl show "\<exists>t. fst (execute_config ge cfg) = t @ [Sync, PowerOff]"
    by (simp add: execute_config_def fst_and_then c)
qed

text \<open>Three Runs of which the second gets the soft token and is reaped after it, and a
  \<open>Run\<close> with a \<open>cat\<close> process to which the same happens.\<close>

theorem timed_out_run_ends_the_sequence_witness:
  "called_runs (fst (execute_config (example_env [Control CHR ''N'' True, Reaped 11]) example_cfg))
     = [named_run ''ip'', named_run ''ls'']
   \<and> snd (execute_config (example_env [Control CHR ''N'' True, Reaped 11]) example_cfg) = Exited 0
   \<and> (\<exists>t. fst (execute_config (example_env [Control CHR ''N'' True, Reaped 11]) example_cfg)
              = t @ [Sync, PowerOff])
   \<and> snd (wait_loop 11 None True False False [Control CHR ''N'' True, Reaped 11]) = Done True
   \<and> snd (handle_run (\<lambda>c. True) (run_envs (example_env [Control CHR ''N'' True, Reaped 11]) 1)
            (named_run ''ls'')) = Done True
   \<and> snd (wait_loop 21 (Some 20) True True False [Control CHR ''N'' True, Reaped 21, Reaped 20])
       = Done True
   \<and> snd (handle_run (\<lambda>c. True) (cat_env [Control CHR ''N'' True, Reaped 21, Reaped 20]) cat_run)
       = Done True
   \<and> snd (handle_run (\<lambda>c. True) (cat_env [Control CHR ''N'' True, Reaped 21, Reaped 20])
            (cat_run \<lparr>daemon := True\<rparr>)) \<noteq> Done True"
proof -
  let ?w = "[Control CHR ''N'' True, Reaped 11]"
  let ?ge = "example_env ?w"
  let ?wc = "[Control CHR ''N'' True, Reaped 21, Reaped 20]"
  note ex = timed_out_run_ends_the_sequence
    [where ge = ?ge and cfg = example_cfg
       and pre = "[named_run ''ip'']" and r = "named_run ''ls''" and rs = "[named_run ''date'']"
       and child = 11 and cat = None and cr = True and kr = False and t = False
       and c = "CHR ''N''" and k = True and es = "[Reaped 11]" and w = "[]"
       and ok = "\<lambda>c. True" and re = "run_envs ?ge 1" and r' = "named_run ''ls''" and b = True
       and catp = 0]
  note ct = timed_out_run_ends_the_sequence
    [where child = 21 and cat = "Some 20" and cr = True and kr = True and t = False
       and c = "CHR ''N''" and k = True and es = "[Reaped 21, Reaped 20]" and w = "[]"
       and ok = "\<lambda>c. True" and re = "cat_env ?wc" and r' = cat_run and b = True and catp = 20
       and ge = ?ge and cfg = example_cfg and pre = "[]" and r = "named_run ''ip''"
       and rs = "[named_run ''ls'', named_run ''date'']"]
  note dm = timed_out_run_ends_the_sequence
    [where ok = "\<lambda>c. True" and re = "cat_env ?wc" and r' = "cat_run \<lparr>daemon := True\<rparr>"
       and child = 21 and cat = "Some 20" and cr = True and kr = True and t = False
       and c = "CHR ''N''" and k = True and es = "[Reaped 21, Reaped 20]" and w = "[]"
       and b = True and catp = 20
       and ge = ?ge and cfg = example_cfg and pre = "[]" and r = "named_run ''ip''"
       and rs = "[named_run ''ls'', named_run ''date'']"]
  have 1: "called_runs (fst (execute_config ?ge example_cfg)) = [named_run ''ip'', named_run ''ls'']
      \<and> snd (execute_config ?ge example_cfg) = Exited 0
      \<and> (\<exists>t. fst (execute_config ?ge example_cfg) = t @ [Sync, PowerOff])
      \<and> snd (wait_loop 11 None True False False ?w) = Done True
      \<and> snd (handle_run (\<lambda>c. True) (run_envs ?ge 1) (named_run ''ls'')) = Done True"
    using ex example_first_run [of ?w] example_soft_token
    by (simp add: example_cfg_def prepare_def emit_def example_env_def)
  have 2: "snd (wait_loop 21 (Some 20) True True False ?wc) = Done True
      \<and> snd (handle_run (\<lambda>c. True) (cat_env ?wc) cat_run) = Done True"
    using ct example_cat_run
    by (simp add: cat_env_def cat_run_def named_run_def example_run_def emit_def)
  have 3: "snd (handle_run (\<lambda>c. True) (cat_env ?wc) (cat_run \<lparr>daemon := True\<rparr>)) \<noteq> Done True"
    using dm by simp
  from 1 2 3 show ?thesis by simp
qed

text \<open>
  Claim C6 says that on the hard-timeout token the guest force-kills the children of the
  Run. It does not. Take the three Runs \<open>ip\<close>, \<open>ls\<close>, \<open>date\<close> with the token \<open>Y\<close> as
  the first thing the wait for \<open>ls\<close> sees, its child 11 running: the supervisor sends no
  signal at all, to child 11 or to anyone, and reaps nothing more; \<open>handle_run\<close>
  unblocks \<open>SIGCHLD\<close> and returns timed out, and the supervisor calls \<open>sync\<close>. Through
  all of this child 11 is left running. What ends it is the power-off of the whole guest,
  the call every run of the supervisor ends with.
\<close>

theorem hard_token_sends_no_kill:
  "execute_config (example_env [Control CHR ''Y'' True]) example_cfg
     = ([CallRun (named_run ''ip''), Printf ''umlbox run: ip'', Sigprocmask True, Fork 10,
         Waitpid 10, Sigprocmask False,
         CallRun (named_run ''ls''), Printf ''umlbox run: ls'', Sigprocmask True, Fork 11,
         Sigprocmask False, Sync, PowerOff], Exited 0)
   \<and> handle_run (sys_ok (example_env [Control CHR ''Y'' True]))
       (run_envs (example_env [Control CHR ''Y'' True]) 1) (named_run ''ls'')
     = ([CallRun (named_run ''ls''), Printf ''umlbox run: ls'', Sigprocmask True, Fork 11,
         Sigprocmask False], Done True)
   \<and> filter is_kill (fst (execute_config (example_env [Control CHR ''Y'' True]) example_cfg)) = []
   \<and> left_running [] (fst (handle_run (sys_ok (example_env [Control CHR ''Y'' True]))
         (run_envs (example_env [Control CHR ''Y'' True]) 1) (named_run ''ls''))) = [11]
   \<and> left_running [] (butlast (fst (execute_config (example_env [Control CHR ''Y'' True])
         example_cfg))) = [11]
   \<and> left_running [] (fst (execute_config (example_env [Control CHR ''Y'' True]) example_cfg)) = []"
proof -
  have h: "handle_run (sys_ok (example_env [Control CHR ''Y'' True]))
       (run_envs (example_env [Control CHR ''Y'' True]) 1) (named_run ''ls'')
     = ([CallRun (named_run ''ls''), Printf ''umlbox run: ls'', Sigprocmask True, Fork 11,
         Sigprocmask False], Done True)"
    by (simp add: handle_run_def example_env_def named_run_def example_run_def emit_def must_def
        must_fork_def)
  have e: "execute_config (example_env [Control CHR ''Y'' True]) example_cfg
     = ([CallRun (named_run ''ip''), Printf ''umlbox run: ip'', Sigprocmask True, Fork 10,
         Waitpid 10, Sigprocmask False,
         CallRun (named_run ''ls''), Printf ''umlbox run: ls'', Sigprocmask True, Fork 11,
         Sigprocmask False, Sync, PowerOff], Exited 0)"
    using example_first_run [of "[Control CHR ''Y'' True]"] h
    by (simp add: execute_config_def prepare_def example_cfg_def emit_def example_env_def)
  show ?thesis
    unfolding e h by simp
qed

text \<open>
  Claim C6, amended. On the hard-timeout token (a control message whose first byte is
  \<open>Y\<close>) the Run Engine sends no signal and reaps no one: the wait ends at once, whatever is
  still running, and the only call \<open>handle_run\<close> still makes is the one that unblocks
  \<open>SIGCHLD\<close>, after which it reports the \<open>Run\<close> as timed out; a main child that had not
  been reaped when the token came is left running. The loop over the Runs ends there, and
  the supervisor's remaining calls are \<open>sync\<close> and the power-off, which ends every
  process of the guest. The supervisor never sends \<open>SIGKILL\<close> to anyone, whatever the
  configuration and whatever happens. A control message with any other first byte makes
  the Run Engine send \<open>SIGTERM\<close> to the main child if that child has not been reaped, and
  nothing if it has.
\<close>

theorem hard_token_ends_the_wait:
  "wait_loop child cat child_running cat_running timed_out (Control CHR ''Y'' kill_ok # es)
     = ([], Done True)
   \<and> Kill p SIGKILL \<notin> set (fst (wait_loop child cat cr kr t evs))
   \<and> avoids is_sigkill (execute_config ge cfg)
   \<and> (snd (handle_run ok (re i) r) = Done True \<longrightarrow>
        run_loop ok re i (r # rs) = (fst (handle_run ok (re i) r), Done ()))
   \<and> (snd (prepare ge cfg) = Done ()
        \<and> snd (run_loop (sys_ok ge) (run_envs ge) 0 (run cfg)) = Done () \<longrightarrow>
        snd (execute_config ge cfg) = Exited 0
        \<and> (\<exists>t'. fst (execute_config ge cfg) = t' @ [Sync, PowerOff]))
   \<and> (\<not> daemon r \<and> ok (Sigprocmask True) \<and> ok (Sigprocmask False)
        \<and> child_fork rn = Some child \<and> (cat_output r \<longrightarrow> ok Pipe \<and> cat_fork rn = Some catp)
        \<and> waits rn = w @ Control CHR ''Y'' kill_ok # es
        \<and> snd (wait_loop child (if cat_output r then Some catp else None) True (cat_output r)
                 False w) = Blocked \<longrightarrow>
          handle_run ok rn r
            = (fst (handle_run ok (rn\<lparr>waits := w\<rparr>) r) @ [Sigprocmask False], Done True)
          \<and> (0 < child \<and> Reaped child \<notin> set w \<longrightarrow>
               child \<in> set (left_running [] (fst (handle_run ok rn r)))))
   \<and> (snd (prepare ge cfg) = Done ()
        \<and> (\<forall>j<length pre. snd (handle_run (sys_ok ge) (run_envs ge j) (pre ! j)) = Done False)
        \<and> run cfg = pre @ r # rs
        \<and> \<not> daemon r \<and> sys_ok ge (Sigprocmask True) \<and> sys_ok ge (Sigprocmask False)
        \<and> child_fork (run_envs ge (length pre)) = Some child
        \<and> (cat_output r \<longrightarrow> sys_ok ge Pipe \<and> cat_fork (run_envs ge (length pre)) = Some catp)
        \<and> waits (run_envs ge (length pre)) = w @ Control CHR ''Y'' kill_ok # es
        \<and> snd (wait_loop child (if cat_output r then Some catp else None) True (cat_output r)
                 False w) = Blocked \<longrightarrow>
          (\<exists>t'. execute_config ge cfg =
             (t' @ fst (handle_run (sys_ok ge) ((run_envs ge (length pre))\<lparr>waits := w\<rparr>) r)
                @ [Sigprocmask False, Sync, PowerOff], Exited 0)))
   \<and> (c \<noteq> CHR ''Y'' \<longrightarrow>
        wait_loop child cat True kr t (Control c True # es)
          = (Kill child SIGTERM # fst (wait_loop child cat True kr True es),
             snd (wait_loop child cat True kr True es))
        \<and> wait_loop child cat False kr t (Control c k # es) = wait_loop child cat False kr True es)
   \<and> left_running ps (tr @ [PowerOff]) = []"
proof (intro conjI impI)
  show "wait_loop child cat child_running cat_running timed_out (Control CHR ''Y'' kill_ok # es)
     = ([], Done True)" by simp
  show "Kill p SIGKILL \<notin> set (fst (wait_loop child cat cr kr t evs))"
    by (rule wait_loop_never_sigkill)
  show "avoids is_sigkill (execute_config ge cfg)" by (rule never_sigkill)
  show "left_running ps (tr @ [PowerOff]) = []" by (simp add: left_running_append)
next
  assume "snd (handle_run ok (re i) r) = Done True"
  then show "run_loop ok re i (r # rs) = (fst (handle_run ok (re i) r), Done ())"
    by (cases "handle_run ok (re i) r") (simp add: emit_def)
next
  assume a: "snd (prepare ge cfg) = Done ()
        \<and> snd (run_loop (sys_ok ge) (run_envs ge) 0 (run cfg)) = Done ()"
  then show "snd (execute_config ge cfg) = Exited 0"
    by (simp add: execute_config_def snd_and_then)
  from a show "\<exists>t'. fst (execute_config ge cfg) = t' @ [Sync, PowerOff]"
    by (simp add: execute_config_def fst_and_then)
next
  assume a: "\<not> daemon r \<and> ok (Sigprocmask True) \<and> ok (Sigprocmask False)
        \<and> child_fork rn = Some child \<and> (cat_output r \<longrightarrow> ok Pipe \<and> cat_fork rn = Some catp)
        \<and> waits rn = w @ Control CHR ''Y'' kill_ok # es
        \<and> snd (wait_loop child (if cat_output r then Some catp else None) True (cat_output r)
                 False w) = Blocked"
  then have h: "\<not> daemon r" "ok (Sigprocmask True)" "ok (Sigprocmask False)"
    "child_fork rn = Some child" "cat_output r \<longrightarrow> ok Pipe \<and> cat_fork rn = Some catp"
    "waits rn = w @ Control CHR ''Y'' kill_ok # es"
    "snd (wait_loop child (if cat_output r then Some catp else None) True (cat_output r)
                 False w) = Blocked" by simp_all
  show "handle_run ok rn r
            = (fst (handle_run ok (rn\<lparr>waits := w\<rparr>) r) @ [Sigprocmask False], Done True)"
    using h by (rule handle_run_hard_token)
  {
    assume "0 < child \<and> Reaped child \<notin> set w"
    then have "0 < child" "Reaped child \<notin> set w" by simp_all
    with h show "child \<in> set (left_running [] (fst (handle_run ok rn r)))"
      by (rule handle_run_leaves_child)
  }
next
  assume a: "snd (prepare ge cfg) = Done ()
        \<and> (\<forall>j<length pre. snd (handle_run (sys_ok ge) (run_envs ge j) (pre ! j)) = Done False)
        \<and> run cfg = pre @ r # rs
        \<and> \<not> daemon r \<and> sys_ok ge (Sigprocmask True) \<and> sys_ok ge (Sigprocmask False)
        \<and> child_fork (run_envs ge (length pre)) = Some child
        \<and> (cat_output r \<longrightarrow> sys_ok ge Pipe \<and> cat_fork (run_envs ge (length pre)) = Some catp)
        \<and> waits (run_envs ge (length pre)) = w @ Control CHR ''Y'' kill_ok # es
        \<and> snd (wait_loop child (if cat_output r then Some catp else None) True (cat_output r)
                 False w) = Blocked"
  then have "snd (prepare ge cfg) = Done ()"
    "\<forall>j<length pre. snd (handle_run (sys_ok ge) (run_envs ge j) (pre ! j)) = Done False"
    "run cfg = pre @ r # rs"
    "\<not> daemon r" "sys_ok ge (Sigprocmask True)" "sys_ok ge (Sigprocmask False)"
    "child_fork (run_envs ge (length pre)) = Some child"
    "cat_output r \<longrightarrow> sys_ok ge Pipe \<and> cat_fork (run_envs ge (length pre)) = Some catp"
    "waits (run_envs ge (length pre)) = w @ Control CHR ''Y'' kill_ok # es"
    "snd (wait_loop child (if cat_output r then Some catp else None) True (cat_output r)
                 False w) = Blocked" by simp_all
  then show "\<exists>t'. execute_config ge cfg =
             (t' @ fst (handle_run (sys_ok ge) ((run_envs ge (length pre))\<lparr>waits := w\<rparr>) r)
                @ [Sigprocmask False, Sync, PowerOff], Exited 0)"
    by (rule execute_config_hard_token)
next
  assume c: "c \<noteq> CHR ''Y''"
  then show "wait_loop child cat True kr t (Control c True # es)
          = (Kill child SIGTERM # fst (wait_loop child cat True kr True es),
             snd (wait_loop child cat True kr True es))"
    by (cases "wait_loop child cat True kr True es") (simp add: emit_def)
  from c show "wait_loop child cat False kr t (Control c k # es) = wait_loop child cat False kr True es"
    by simp
qed

text \<open>The three Runs with the hard token during the second, and a \<open>Run\<close> with a \<open>cat\<close>
  process that gets the hard token after an interrupted \<open>ppoll\<close>.\<close>

theorem hard_token_ends_the_wait_witness:
  "run_loop (\<lambda>c. True) (run_envs (example_env [Control CHR ''Y'' True])) 1
       [named_run ''ls'', named_run ''date'']
     = ([CallRun (named_run ''ls''), Printf ''umlbox run: ls'', Sigprocmask True, Fork 11,
         Sigprocmask False], Done ())
   \<and> snd (execute_config (example_env [Control CHR ''Y'' True]) example_cfg) = Exited 0
   \<and> (\<exists>t'. execute_config (example_env [Control CHR ''Y'' True]) example_cfg =
         (t' @ [CallRun (named_run ''ls''), Printf ''umlbox run: ls'', Sigprocmask True, Fork 11]
             @ [Sigprocmask False, Sync, PowerOff], Exited 0))
   \<and> 11 \<in> set (left_running [] (fst (handle_run (\<lambda>c. True)
         (run_envs (example_env [Control CHR ''Y'' True]) 1) (named_run ''ls''))))
   \<and> handle_run (\<lambda>c. True) (cat_env [PollInterrupted, Control CHR ''Y'' True]) cat_run
     = ([CallRun cat_run, Printf ''umlbox run: ls'', Sigprocmask True, Pipe, Fork 20, Fork 21,
         Close ''cat_pipe[0]'', Close ''cat_pipe[1]'', Sigprocmask False], Done True)
   \<and> 21 \<in> set (left_running [] (fst (handle_run (\<lambda>c. True)
         (cat_env [PollInterrupted, Control CHR ''Y'' True]) cat_run)))
   \<and> wait_loop 11 None True False False [Control CHR ''N'' True] = ([Kill 11 SIGTERM], Blocked)
   \<and> avoids is_sigkill (execute_config (example_env [Control CHR ''Y'' True]) example_cfg)"
proof -
  let ?ge = "example_env [Control CHR ''Y'' True]"
  let ?wc = "[PollInterrupted, Control CHR ''Y'' True]"
  note a = hard_token_ends_the_wait
    [where ok = "\<lambda>c. True" and re = "run_envs ?ge" and rn = "run_envs ?ge 1"
       and i = 1 and r = "named_run ''ls''" and rs = "[named_run ''date'']"
       and ge = ?ge and cfg = example_cfg and pre = "[named_run ''ip'']"
       and child = 11 and catp = 0 and w = "[]" and kill_ok = True and es = "[]"
       and c = "CHR ''N''" and cat = None and kr = False and t = False]
  note b = hard_token_ends_the_wait
    [where ok = "\<lambda>c. True" and rn = "cat_env ?wc" and r = cat_run
       and child = 21 and catp = 20 and w = "[PollInterrupted]" and kill_ok = True and es = "[]"]
  have h0: "handle_run (\<lambda>c. True) ((run_envs ?ge 1)\<lparr>waits := []\<rparr>) (named_run ''ls'')
      = ([CallRun (named_run ''ls''), Printf ''umlbox run: ls'', Sigprocmask True, Fork 11], Blocked)"
    by (simp add: handle_run_def example_env_def named_run_def example_run_def emit_def must_def
        must_fork_def)
  have hc: "handle_run (\<lambda>c. True) ((cat_env ?wc)\<lparr>waits := [PollInterrupted]\<rparr>) cat_run
      = ([CallRun cat_run, Printf ''umlbox run: ls'', Sigprocmask True, Pipe, Fork 20, Fork 21,
         Close ''cat_pipe[0]'', Close ''cat_pipe[1]''], Blocked)"
    by (simp add: handle_run_def cat_env_def cat_run_def named_run_def example_run_def emit_def
        must_def must_fork_def)
  have 1: "run_loop (\<lambda>c. True) (run_envs ?ge) 1 [named_run ''ls'', named_run ''date'']
     = ([CallRun (named_run ''ls''), Printf ''umlbox run: ls'', Sigprocmask True, Fork 11,
         Sigprocmask False], Done ())
   \<and> snd (execute_config ?ge example_cfg) = Exited 0
   \<and> (\<exists>t'. execute_config ?ge example_cfg =
         (t' @ [CallRun (named_run ''ls''), Printf ''umlbox run: ls'', Sigprocmask True, Fork 11]
             @ [Sigprocmask False, Sync, PowerOff], Exited 0))
   \<and> 11 \<in> set (left_running [] (fst (handle_run (\<lambda>c. True) (run_envs ?ge 1) (named_run ''ls''))))
   \<and> wait_loop 11 None True False False [Control CHR ''N'' True] = ([Kill 11 SIGTERM], Blocked)
   \<and> avoids is_sigkill (execute_config ?ge example_cfg)"
    using a example_first_run [of "[Control CHR ''Y'' True]"] h0
    by (simp add: example_env_def named_run_def example_run_def example_cfg_def prepare_def
        emit_def)
  have 2: "handle_run (\<lambda>c. True) (cat_env ?wc) cat_run
     = ([CallRun cat_run, Printf ''umlbox run: ls'', Sigprocmask True, Pipe, Fork 20, Fork 21,
         Close ''cat_pipe[0]'', Close ''cat_pipe[1]'', Sigprocmask False], Done True)
   \<and> 21 \<in> set (left_running [] (fst (handle_run (\<lambda>c. True) (cat_env ?wc) cat_run)))"
    using b hc
    by (simp add: cat_env_def cat_run_def named_run_def example_run_def)
  from 1 2 show ?thesis by simp
qed

subsection \<open>The host's timeout escalation\<close>

text \<open>
  Claim C4. With a positive timeout, what the host does with the guest process is: wait up
  to the timeout; if it has not exited, write the soft token and wait up to 5 seconds; if it
  still has not exited, write the hard token and wait up to 5 seconds; if it still has not
  exited, send \<open>SIGKILL\<close> to the process group and wait without a limit. Each stage
  happens only when the wait before it ran out, none is left out and none comes before an
  earlier one; once the guest has exited nothing further is done.
\<close>

theorem timeout_escalation_in_three_stages:
  "0 < timeout \<longrightarrow>
     map_option calls (supervise timeout exits) =
       Some (WaitFor (Some timeout) #
         (if exits 0 = None then
            [WriteCtl soft_token, WaitFor (Some 5)] @
            (if exits 1 = None then
               [WriteCtl hard_token, WaitFor (Some 5)] @
               (if exits 2 = None then [Killpg SIGKILL, WaitFor None] else [])
             else [])
          else []))
     \<and> map_option returncode (supervise timeout exits) =
         Some (if exits 0 = None then
                 if exits 1 = None then if exits 2 = None then exits 3 else exits 2
                 else exits 1
               else exits 0)"
  by (auto simp: supervise_def stage_def os_write_def uml_wait_def Let_def
      numeral_2_eq_2 numeral_3_eq_3)

text \<open>The scenario of the specification: a timeout of one second and a guest that is still
  there after it and after both tokens, and dies of the \<open>SIGKILL\<close> (status -9).\<close>

theorem timeout_escalation_in_three_stages_witness:
  "map_option calls (supervise 1 (\<lambda>k. if k < 3 then None else Some (- 9))) =
     Some [WaitFor (Some 1), WriteCtl ''N\<newline>'', WaitFor (Some 5), WriteCtl ''Y\<newline>'',
           WaitFor (Some 5), Killpg SIGKILL, WaitFor None]
   \<and> map_option returncode (supervise 1 (\<lambda>k. if k < 3 then None else Some (- 9))) = Some (Some (- 9))"
  using timeout_escalation_in_three_stages [of 1 "\<lambda>k. if k < 3 then None else Some (- 9)"]
  by (simp add: soft_token_def hard_token_def)

subsection \<open>The configuration image: header, payload, padding\<close>

lemma bytes_sum:
  assumes "n < 2 ^ 32"
  shows "n mod 256 + 256 * (n div 256 mod 256 + 256 * (n div 65536 mod 256 + 256 * (n div 16777216 mod 256))) = (n::nat)"
proof -
  have d: "n div 16777216 mod 256 = n div 16777216"
    using assms by (simp add: less_mult_imp_div_less)
  have c: "n div 65536 mod 256 + 256 * (n div 16777216) = n div 65536"
    using div_mult2_eq [of n 65536 256] by simp
  have b: "n div 256 mod 256 + 256 * (n div 65536) = n div 256"
    using div_mult2_eq [of n 256 256] by simp
  have a: "n mod 256 + 256 * (n div 256) = n" by simp
  show ?thesis by (simp only: d c b a)
qed
lemma le32_pack32: "n < 2 ^ 32 \<Longrightarrow> le32 (pack32 n) = word_of_nat n"
  using bytes_sum [of n]
  by (simp add: le32_def pack32_def unat_of_nat)

lemma length_pack32 [simp]: "length (pack32 n) = 4"
  by (simp add: pack32_def)

lemma magic: "le32 (pack32 0xdeadbeef) = 0xdeadbeef"
  by (simp add: le32_pack32)

lemma store_front: "length bs \<le> length buf \<Longrightarrow> take (length bs) (store buf 0 bs) = bs"
  by (simp add: store_def)

lemma length_junk_buf [simp]: "length (junk_buf j n) = n"
  by (simp add: junk_buf_def)

lemma read_sys_image:
  "read_sys \<lparr>pending = img, sched = []\<rparr> req =
     (int (min req (length img)), take (min req (length img)) img, None,
      \<lparr>pending = drop (min req (length img)) img, sched = []\<rparr>)"
  by (simp add: read_sys_def Let_def)

lemma readall_image:
  assumes "unat count \<le> length img" and "unat count \<le> 2 ^ 63" and "length buf = unat count"
  shows "readall \<lparr>pending = img, sched = []\<rparr> buf count =
     (sint count, None, take (unat count) img, unat count, \<lparr>pending = drop (unat count) img, sched = []\<rparr>)"
proof (cases "count = 0")
  case True
  then show ?thesis using assms by (simp add: readall_def readall_loop_stop)
next
  case False
  then have pos: "0 < unat count" by (simp add: unat_gt_0)
  then have ipos: "0 < int (unat count)" by linarith
  have m: "min (unat count) (length img) = unat count" using assms(1) by simp
  have "readall \<lparr>pending = img, sched = []\<rparr> buf count =
     (sint count, None, store buf 0 (take (unat count) img), nat (int (unat count)),
      \<lparr>pending = drop (unat count) img, sched = []\<rparr>)"
    using ipos by (intro readall_single_read [OF assms(2)]) (simp_all only: read_sys_image m)
  moreover have "store buf 0 (take (unat count) img) = take (unat count) img"
    using assms(1,3) by (simp add: store_def)
  ultimately show ?thesis by simp
qed

lemma c_int_small: "0 \<le> v \<Longrightarrow> v < 2 ^ 31 \<Longrightarrow> c_int v = v"
  by (simp add: c_int_def sint_sbintrunc' signed_take_bit_int_eq_self)

lemma read_config_bad_magic:
  assumes len: "4 \<le> length img" and bad: "le32 (take 4 img) \<noteq> 0xdeadbeef"
  shows "read_config ge (image_fd img) =
     ([Printf ''unexpected header'', Printf ''umlbox: bad /ubda header'', PowerOff], Exited 1)"
proof -
  let ?n = "min 8 (length img)"
  let ?hdr = "store (junk_buf (stack_junk ge) 8) 0 (take ?n img)"
  have n: "4 \<le> ?n" "?n \<le> 8" using len by simp_all
  have "readall (image_fd img) (junk_buf (stack_junk ge) 8) 8 =
      (sint (8 :: size_t), None, ?hdr, nat (int ?n), \<lparr>pending = drop ?n img, sched = []\<rparr>)"
    unfolding image_fd_def using n len
    by (intro readall_single_read) (auto simp: read_sys_image)
  moreover have "take 4 ?hdr = take 4 img" using n by (simp add: store_def)
  moreover have "c_int (sint (8 :: size_t)) \<noteq> - 1" by (simp add: c_int_def)
  ultimately show ?thesis using bad
    by (simp add: read_config_def emit_def fail_def)
qed

lemma idle_and_then: "idle m \<Longrightarrow> (\<And>v. idle (f v)) \<Longrightarrow> idle (and_then m f)"
  by (auto simp: idle_def fst_and_then intro: quiet_and_then split: outcome.splits)

lemma idle_must: "\<not> is_call c \<Longrightarrow> \<not> is_execv c \<Longrightarrow> idle (must ok i msg c)"
  by (simp add: idle_def quiet_must) (simp add: must_def emit_def fail_def)

lemma idle_emit: "filter is_call t = [] \<Longrightarrow> filter is_execv t = [] \<Longrightarrow> idle (emit t)"
  by (simp add: idle_def quiet_emit) (simp add: emit_def)

lemma idle_for_each: "(\<And>x. idle (f x)) \<Longrightarrow> idle (for_each f xs)"
  by (induction xs) (auto intro!: idle_and_then idle_emit)

lemma idle_open_to: "idle (open_to ok i n p fb)"
  unfolding open_to_def
  by (auto intro!: idle_and_then idle_must idle_emit split: option.splits)

lemma idle_bootstrap: "idle (bootstrap ok)"
  unfolding bootstrap_def
  by (intro idle_and_then idle_must idle_emit idle_for_each idle_open_to) simp_all

lemma main_bad_magic:
  assumes len: "4 \<le> length img" and bad: "le32 (take 4 img) \<noteq> 0xdeadbeef"
  shows "filter is_call (fst (main ge (image_fd img))) = [] \<and> snd (main ge (image_fd img)) = Exited 1"
proof -
  have rc: "and_then (read_config ge (image_fd img)) (\<lambda>cfg. execute_config ge cfg) =
      ([Printf ''unexpected header'', Printf ''umlbox: bad /ubda header'', PowerOff], Exited 1)"
    by (simp add: read_config_bad_magic [OF assms])
  have j: "idle (and_then (must (sys_ok ge) True ''open /ubda'' (Open ''/ubda''))
           (\<lambda>u. and_then (read_config ge (image_fd img)) (\<lambda>cfg. execute_config ge cfg)))"
    unfolding rc by (intro idle_and_then idle_must) (simp_all add: idle_def quiet_def)
  have i: "idle (main ge (image_fd img))"
    unfolding main_def by (rule idle_and_then, rule idle_bootstrap, rule j)
  have "\<And>v. snd (and_then (must (sys_ok ge) True ''open /ubda'' (Open ''/ubda''))
           (\<lambda>u. and_then (read_config ge (image_fd img)) (\<lambda>cfg. execute_config ge cfg))) \<noteq> Done v"
    unfolding rc by (simp add: snd_and_then must_def fail_def emit_def)
  then have "\<And>v. snd (main ge (image_fd img)) \<noteq> Done v"
    unfolding main_def by (simp add: snd_and_then split: outcome.splits)
  with i show ?thesis by (auto simp: idle_def quiet_def)
qed
lemma unat_ucast_size_t: "unat (ucast (w :: 32 word) :: 64 word) = unat w"
proof -
  have "unat w < 2 ^ 32" using unsigned_less [of w, where 'a = nat] by simp
  then have "unat w < 2 ^ 64" by simp
  then show ?thesis by (simp add: unsigned_ucast_eq take_bit_nat_eq_self)
qed

lemma sint_ucast_size_t:
  assumes "unat (w :: 32 word) < 2 ^ 31"
  shows "sint (ucast w :: 64 word) = int (unat w)"
proof -
  have "uint (ucast w :: 64 word) = int (unat (ucast w :: 64 word))" by simp
  also have "\<dots> = int (unat w)" by (simp only: unat_ucast_size_t)
  finally have u: "uint (ucast w :: 64 word) = int (unat w)" .
  have "sint (ucast w :: 64 word) = signed_take_bit 63 (uint (ucast w :: 64 word))"
    by (simp add: sint_uint)
  also have "\<dots> = signed_take_bit 63 (int (unat w))" by (simp only: u)
  also have "\<dots> = int (unat w)"
  proof (rule signed_take_bit_int_eq_self)
    have "(0::int) \<le> int (unat w)" by (rule of_nat_0_le_iff)
    moreover have "- (2 ^ 63) \<le> (0::int)" by simp
    ultimately show "- (2 ^ 63) \<le> int (unat w)" by (rule order_trans [rotated])
    from assms have "int (unat w) < int (2 ^ 31)" by (simp only: of_nat_less_iff)
    moreover have "int (2 ^ 31) < 2 ^ 63" by simp
    ultimately show "int (unat w) < 2 ^ 63" by (rule less_trans)
  qed
  finally show ?thesis .
qed

lemma padded_length: "(8 + (n::nat) + (512 - (8 + n) mod 512)) mod 512 = 0"
proof -
  have "(8 + n) mod 512 < 512" by simp
  then have "8 + n + (512 - (8 + n) mod 512) = 512 + ((8 + n) - (8 + n) mod 512)"
    by (simp add: mod_le_divisor)
  also have "(8 + n) - (8 + n) mod 512 = 512 * ((8 + n) div 512)"
    by (simp add: minus_mod_eq_mult_div)
  finally show ?thesis by simp
qed

lemma encode_image_layout:
  assumes "length (serialize c) < 2 ^ 32"
  shows "\<exists>k<512. encode_image serialize c =
           Some (pack32 0xdeadbeef @ pack32 (length (serialize c)) @ serialize c @ replicate k 0)
         \<and> (8 + length (serialize c) + k) mod 512 = 0"
proof (cases "(8 + length (serialize c)) mod 512 = 0")
  case True
  with assms show ?thesis
    by (intro exI [of _ 0]) (simp add: encode_image_def Let_def)
next
  case False
  let ?k = "512 - (8 + length (serialize c)) mod 512"
  have "(8 + length (serialize c) + ?k) mod 512 = 0"
    by (rule padded_length)
  with False assms show ?thesis
    by (intro exI [of _ ?k]) (simp add: encode_image_def Let_def add.commute)
qed

lemma read_config_image:
  assumes up: "config_unpack ge payload = Some c"
    and len: "length payload < 2 ^ 31"
    and mem: "sys_ok ge (Malloc (length payload))"
  shows "read_config ge
           (image_fd (pack32 0xdeadbeef @ pack32 (length payload) @ payload @ replicate k 0))
         = (Malloc (length payload) # Close ''/ubda'' # dump_config (length payload) c, Done c)"
proof -
  let ?L = "length payload"
  let ?img = "pack32 0xdeadbeef @ pack32 ?L @ payload @ replicate k 0"
  let ?hdr = "pack32 0xdeadbeef @ pack32 ?L"
  let ?rest = "payload @ replicate k 0"
  let ?n = "word_of_nat ?L :: uint32_t"
  from len have l32: "?L < 2 ^ 32" by simp
  have n: "unat ?n = ?L" using l32 by (simp add: unat_of_nat)
  have "readall (image_fd ?img) (junk_buf (stack_junk ge) 8) 8 =
      (sint (8 :: size_t), None, take (unat (8 :: size_t)) ?img, unat (8 :: size_t),
       \<lparr>pending = drop (unat (8 :: size_t)) ?img, sched = []\<rparr>)"
    unfolding image_fd_def by (rule readall_image) simp_all
  then have hdr: "readall (image_fd ?img) (junk_buf (stack_junk ge) 8) 8 =
      (8, None, ?hdr, 8, \<lparr>pending = ?rest, sched = []\<rparr>)"
    by simp
  have h0: "le32 (take 4 ?hdr) = 0xdeadbeef"
    by (simp add: le32_pack32)
  have h1: "le32 (take 4 (drop 4 ?hdr)) = ?n"
    using l32 by (simp add: le32_pack32)
  have cnt: "unat (ucast ?n :: size_t) = ?L" by (simp only: unat_ucast_size_t n)
  have s: "sint (ucast ?n :: size_t) = int ?L"
    using sint_ucast_size_t [of ?n] len by (simp add: n)
  have "readall \<lparr>pending = ?rest, sched = []\<rparr> (junk_buf (heap_junk ge) ?L) (ucast ?n) =
      (sint (ucast ?n :: size_t), None, take ?L ?rest, ?L,
       \<lparr>pending = drop ?L ?rest, sched = []\<rparr>)"
  proof -
    from len have "?L \<le> 2 ^ 63" by simp
    then show ?thesis
      using readall_image [of "ucast ?n" ?rest "junk_buf (heap_junk ge) ?L"]
      by (simp add: cnt)
  qed
  then have dat: "readall \<lparr>pending = ?rest, sched = []\<rparr> (junk_buf (heap_junk ge) ?L) (ucast ?n)
      = (int ?L, None, payload, ?L, \<lparr>pending = replicate k 0, sched = []\<rparr>)"
    by (simp add: s)
  have c8: "c_int 8 \<noteq> - 1" by (simp add: c_int_small)
  have ci: "c_int (int ?L) \<noteq> - 1" using len by (simp add: c_int_small)
  have m: "must (sys_ok ge) True ''malloc config'' (Malloc ?L) = ([Malloc ?L], Done ())"
    using mem by (simp add: must_def)
  show ?thesis
    unfolding read_config_def hdr prod.case Let_def h0 h1 n dat m
    using c8 ci up by simp
qed

text \<open>
  Claim C2. Whatever the image is, as long as its first four bytes are there and are not
  the magic word (read in the machine's order, least significant byte first), reading the
  configuration reports the unexpected header, fails with \<open>bad /ubda header\<close> and
  powers the guest off; \<open>main\<close> then never calls \<open>handle_mount\<close> or \<open>handle_run\<close>
  and ends with status 1. The image is read as a block device is: each \<open>read\<close> delivers
  what is asked for and is there.
\<close>

theorem bad_magic_is_fatal:
  "4 \<le> length img \<and> le32 (take 4 img) \<noteq> 0xdeadbeef \<longrightarrow>
     read_config ge (image_fd img) =
       ([Printf ''unexpected header'', Printf ''umlbox: bad /ubda header'', PowerOff], Exited 1)
     \<and> filter is_call (fst (main ge (image_fd img))) = []
     \<and> snd (main ge (image_fd img)) = Exited 1"
  using read_config_bad_magic [of img ge] main_bad_magic [of img ge] by blast

text \<open>An image whose magic word is wrong in one byte (\<open>0xdfadbeef\<close>), with a payload
  that would decode.\<close>

theorem bad_magic_is_fatal_witness:
  "read_config (example_env []) (image_fd [0xef, 0xbe, 0xad, 0xdf, 2, 0, 0, 0, 0x1a, 0]) =
       ([Printf ''unexpected header'', Printf ''umlbox: bad /ubda header'', PowerOff], Exited 1)
   \<and> filter is_call (fst (main (example_env []) (image_fd [0xef, 0xbe, 0xad, 0xdf, 2, 0, 0, 0, 0x1a, 0]))) = []
   \<and> snd (main (example_env []) (image_fd [0xef, 0xbe, 0xad, 0xdf, 2, 0, 0, 0, 0x1a, 0])) = Exited 1"
  using bad_magic_is_fatal [of "[0xef, 0xbe, 0xad, 0xdf, 2, 0, 0, 0, 0x1a, 0]" "example_env []"]
  by (simp add: le32_def)

text \<open>
  Claim C1. Let \<open>serialize\<close> and \<open>config_unpack\<close> be the protobuf library's two
  directions, and \<open>c\<close> a configuration that the library itself gives back
  (\<open>config_unpack (serialize c) = c\<close>), whose payload is shorter than \<open>2^31\<close> bytes and
  can be allocated. Then the host's image is the magic word, the payload length, the payload
  and fewer than 512 zero bytes that fill it up to a multiple of 512, and the guest, reading
  that image from the block device, decodes \<open>c\<close>.
\<close>

theorem image_round_trip:
  "config_unpack ge (serialize c) = Some c \<and> length (serialize c) < 2 ^ 31
     \<and> sys_ok ge (Malloc (length (serialize c))) \<longrightarrow>
   (\<exists>k<512.
      encode_image serialize c =
        Some (pack32 0xdeadbeef @ pack32 (length (serialize c)) @ serialize c @ replicate k 0)
      \<and> (8 + length (serialize c) + k) mod 512 = 0
      \<and> snd (read_config ge
               (image_fd (pack32 0xdeadbeef @ pack32 (length (serialize c)) @ serialize c
                            @ replicate k 0))) = Done c)"
proof
  assume a: "config_unpack ge (serialize c) = Some c \<and> length (serialize c) < 2 ^ 31
     \<and> sys_ok ge (Malloc (length (serialize c)))"
  then have "length (serialize c) < 2 ^ 32" by simp
  then have "\<exists>k<512. encode_image serialize c =
           Some (pack32 0xdeadbeef @ pack32 (length (serialize c)) @ serialize c @ replicate k 0)
         \<and> (8 + length (serialize c) + k) mod 512 = 0"
    by (rule encode_image_layout)
  then obtain k where kk: "k < 512 \<and>
      encode_image serialize c =
        Some (pack32 0xdeadbeef @ pack32 (length (serialize c)) @ serialize c @ replicate k 0)
      \<and> (8 + length (serialize c) + k) mod 512 = 0" ..
  from kk have k1: "k < 512" by (rule conjunct1)
  from kk have k2: "encode_image serialize c =
        Some (pack32 0xdeadbeef @ pack32 (length (serialize c)) @ serialize c @ replicate k 0)"
    by (rule conjunct2 [THEN conjunct1])
  from kk have k3: "(8 + length (serialize c) + k) mod 512 = 0"
    by (rule conjunct2 [THEN conjunct2])
  from a have u: "config_unpack ge (serialize c) = Some c" by (rule conjunct1)
  from a have l: "length (serialize c) < 2 ^ 31" by (rule conjunct2 [THEN conjunct1])
  from a have m: "sys_ok ge (Malloc (length (serialize c)))" by (rule conjunct2 [THEN conjunct2])
  have "read_config ge
           (image_fd (pack32 0xdeadbeef @ pack32 (length (serialize c)) @ serialize c
                        @ replicate k 0))
         = (Malloc (length (serialize c)) # Close ''/ubda'' # dump_config (length (serialize c)) c, Done c)"
    using u l m by (rule read_config_image)
  then have "snd (read_config ge
           (image_fd (pack32 0xdeadbeef @ pack32 (length (serialize c)) @ serialize c
                        @ replicate k 0))) = Done c"
    by (simp only: snd_conv)
  then have "k < 512 \<and>
      encode_image serialize c =
        Some (pack32 0xdeadbeef @ pack32 (length (serialize c)) @ serialize c @ replicate k 0)
      \<and> (8 + length (serialize c) + k) mod 512 = 0
      \<and> snd (read_config ge
               (image_fd (pack32 0xdeadbeef @ pack32 (length (serialize c)) @ serialize c
                            @ replicate k 0))) = Done c"
    using k1 k2 k3 by (intro conjI)
  then show "\<exists>k<512.
      encode_image serialize c =
        Some (pack32 0xdeadbeef @ pack32 (length (serialize c)) @ serialize c @ replicate k 0)
      \<and> (8 + length (serialize c) + k) mod 512 = 0
      \<and> snd (read_config ge
               (image_fd (pack32 0xdeadbeef @ pack32 (length (serialize c)) @ serialize c
                            @ replicate k 0))) = Done c"
    by (rule exI)
qed

theorem image_round_trip_witness:
  "\<exists>k<512.
      encode_image (\<lambda>c. [0x1a, 0]) one_run_cfg =
        Some (pack32 0xdeadbeef @ pack32 (length [0x1a, 0 :: byte]) @ [0x1a, 0] @ replicate k 0)
      \<and> (8 + length [0x1a, 0 :: byte] + k) mod 512 = 0
      \<and> snd (read_config one_run_env
               (image_fd (pack32 0xdeadbeef @ pack32 (length [0x1a, 0 :: byte]) @ [0x1a, 0]
                            @ replicate k 0)))
            = Done one_run_cfg"
proof -
  have "config_unpack one_run_env [0x1a, 0] = Some one_run_cfg
      \<and> length [0x1a, 0 :: byte] < 2 ^ 31
      \<and> sys_ok one_run_env (Malloc (length [0x1a, 0 :: byte]))"
    by (simp add: one_run_env_def example_env_def)
  with image_round_trip [of one_run_env "\<lambda>c. [0x1a, 0]" one_run_cfg]
  show ?thesis by (rule mp)
qed

subsection \<open>The mounts, from the host's list to the guest's calls\<close>

lemma idle_mkdirs_parts: "idle (mkdirs_parts ok ps)"
  by (induction ps) (auto intro!: idle_and_then idle_must idle_emit)

lemma idle_mkdirs: "idle (mkdirs ok d)"
  unfolding mkdirs_def
  by (intro idle_and_then idle_must idle_mkdirs_parts) simp_all

lemma mkdirs_parts_done: "snd (mkdirs_parts (\<lambda>c. True) ps) = Done ()"
  by (induction ps) (simp_all add: emit_def must_def snd_and_then)

lemma mkdirs_done: "snd (mkdirs (\<lambda>c. True) d) = Done ()"
  by (simp add: mkdirs_def must_def snd_and_then mkdirs_parts_done)

lemma handle_mount_calls_itself:
  "filter is_call (fst (handle_mount (\<lambda>c. True) m)) = [CallMount m]
   \<and> snd (handle_mount (\<lambda>c. True) m) = Done ()"
  using idle_mkdirs [of "\<lambda>c. True" "mount_point (target m)"]
  by (simp add: handle_mount_def Let_def emit_def must_def fst_and_then snd_and_then
      mkdirs_done idle_def)

lemma mounts_applied_in_order:
  "filter is_call (fst (for_each (handle_mount (\<lambda>c. True)) ms)) = map CallMount ms
   \<and> snd (for_each (handle_mount (\<lambda>c. True)) ms) = Done ()"
  by (induction ms) (simp_all add: emit_def fst_and_then snd_and_then handle_mount_calls_itself)

lemma mounts_of_for_each_ok:
  "filter is_mount_sys (fst (for_each (handle_mount (\<lambda>c. True)) ms)) = map mount_call ms"
  by (induction ms)
    (simp_all add: emit_def fst_and_then handle_mount_calls_itself handle_mount_calls mkdirs_done
      mount_call_def)

lemma handle_random_done: "snd (handle_random (\<lambda>c. True) bs) = Done ()"
  by (simp add: handle_random_def must_def snd_and_then)

lemma handle_tty_raw_done: "snd (handle_tty_raw (\<lambda>c. True) d) = Done ()"
  by (simp add: handle_tty_raw_def must_def emit_def snd_and_then)

lemma for_each_done: "(\<And>x. snd (f x) = Done ()) \<Longrightarrow> snd (for_each f xs) = Done ()"
  by (induction xs) (simp_all add: emit_def snd_and_then)

lemma no_mount_prelude:
  "avoids is_mount_sys (if length (random cfg) > 0 then handle_random ok (random cfg) else emit [])"
  "avoids is_mount_sys (for_each (handle_tty_raw ok) (tty_raw cfg))"
  by (auto intro!: avoids_handle_random avoids_emit avoids_for_each avoids_handle_tty_raw)

lemma filter_and_then:
  "filter P (fst (and_then m f)) =
     filter P (fst m) @ (case snd m of Done v \<Rightarrow> filter P (fst (f v)) | Exited n \<Rightarrow> []
                         | Image p a \<Rightarrow> [] | Blocked \<Rightarrow> [])"
  by (simp add: fst_and_then split: outcome.splits)

lemma mounts_of_prepare_ok:
  assumes "sys_ok ge = (\<lambda>c. True)"
  shows "filter is_mount_sys (fst (prepare ge cfg)) = map mount_call (mount cfg)"
    and "snd (prepare ge cfg) = Done ()"
proof -
  define a where "a = (if length (random cfg) > 0 then handle_random (\<lambda>c. True) (random cfg) else emit [])"
  define b where "b = for_each (handle_tty_raw (\<lambda>c. True)) (tty_raw cfg)"
  have r: "snd a = Done ()"
    by (simp add: a_def handle_random_done emit_def)
  have t: "snd b = Done ()"
    unfolding b_def by (rule for_each_done) (rule handle_tty_raw_done)
  have na: "filter is_mount_sys (fst a) = []" and nb: "filter is_mount_sys (fst b) = []"
    using no_mount_prelude [where cfg = cfg and ok = "\<lambda>c. True"]
    by (simp_all add: avoids_def a_def b_def)
  have p: "prepare ge cfg = and_then a (\<lambda>u. and_then b (\<lambda>u. for_each (handle_mount (\<lambda>c. True)) (mount cfg)))"
    by (simp add: prepare_def assms a_def b_def)
  show "filter is_mount_sys (fst (prepare ge cfg)) = map mount_call (mount cfg)"
    unfolding p by (simp add: filter_and_then r t na nb mounts_of_for_each_ok)
  show "snd (prepare ge cfg) = Done ()"
    unfolding p by (simp add: snd_and_then r t mounts_applied_in_order)
qed

lemma mounts_of_execute_config:
  "filter is_mount_sys (fst (execute_config ge cfg)) = filter is_mount_sys (fst (prepare ge cfg))"
proof -
  have "avoids is_mount_sys (run_loop (sys_ok ge) (run_envs ge) 0 (run cfg))"
    by (rule avoids_run_loop) simp_all
  then show ?thesis
    by (simp add: execute_config_def fst_and_then avoids_def split: outcome.splits)
qed

lemma handle_mount_one:
  "filter is_mount_sys (fst (handle_mount ok m)) = [mount_call m]
   \<or> filter is_mount_sys (fst (handle_mount ok m)) = [] \<and> snd (handle_mount ok m) \<noteq> Done ()"
proof (cases "snd (mkdirs ok (mount_point (target m))) = Done ()")
  case True
  then show ?thesis by (simp add: handle_mount_calls mount_call_def)
next
  case False
  then have "snd (handle_mount ok m) \<noteq> Done ()"
    by (simp add: handle_mount_def Let_def emit_def snd_and_then split: outcome.splits)
  with False show ?thesis by (simp add: handle_mount_calls)
qed

lemma mounts_prefix_for_each:
  "\<exists>n. filter is_mount_sys (fst (for_each (handle_mount ok) ms)) = take n (map mount_call ms)"
proof (induction ms)
  case Nil
  show ?case by (simp add: emit_def)
next
  case (Cons m ms)
  then obtain n where n: "filter is_mount_sys (fst (for_each (handle_mount ok) ms)) = take n (map mount_call ms)"
    by blast
  from handle_mount_one [of ok m] show ?case
  proof
    assume a: "filter is_mount_sys (fst (handle_mount ok m)) = [mount_call m]"
    show ?thesis
    proof (cases "snd (handle_mount ok m) = Done ()")
      case True
      with a n have "filter is_mount_sys (fst (for_each (handle_mount ok) (m # ms)))
          = take (Suc n) (map mount_call (m # ms))"
        by (simp add: fst_and_then)
      then show ?thesis ..
    next
      case False
      with a have "filter is_mount_sys (fst (for_each (handle_mount ok) (m # ms)))
          = take 1 (map mount_call (m # ms))"
        by (simp add: fst_and_then split: outcome.splits)
      then show ?thesis ..
    qed
  next
    assume a: "filter is_mount_sys (fst (handle_mount ok m)) = [] \<and> snd (handle_mount ok m) \<noteq> Done ()"
    then have "filter is_mount_sys (fst (for_each (handle_mount ok) (m # ms)))
          = take 0 (map mount_call (m # ms))"
      by (simp add: fst_and_then split: outcome.splits)
    then show ?thesis ..
  qed
qed

lemma mounts_prefix_prepare:
  "\<exists>n. filter is_mount_sys (fst (prepare ge cfg)) = take n (map mount_call (mount cfg))"
proof -
  define a where "a = (if length (random cfg) > 0 then handle_random (sys_ok ge) (random cfg) else emit [])"
  define b where "b = for_each (handle_tty_raw (sys_ok ge)) (tty_raw cfg)"
  from mounts_prefix_for_each [of "sys_ok ge" "mount cfg"] obtain n where
    n: "filter is_mount_sys (fst (for_each (handle_mount (sys_ok ge)) (mount cfg))) = take n (map mount_call (mount cfg))" ..
  have na: "filter is_mount_sys (fst a) = []" and nb: "filter is_mount_sys (fst b) = []"
    using no_mount_prelude [where cfg = cfg and ok = "sys_ok ge"]
    by (simp_all add: avoids_def a_def b_def)
  have p: "prepare ge cfg = and_then a (\<lambda>u. and_then b (\<lambda>u. for_each (handle_mount (sys_ok ge)) (mount cfg)))"
    by (simp add: prepare_def a_def b_def)
  have "filter is_mount_sys (fst (prepare ge cfg)) = take n (map mount_call (mount cfg))
      \<or> filter is_mount_sys (fst (prepare ge cfg)) = take 0 (map mount_call (mount cfg))"
    unfolding p by (simp add: filter_and_then na nb n split: outcome.splits)
  then show ?thesis by blast
qed

text \<open>
  Claim C3. Whatever mounts are asked for, the \<open>Mount\<close> sequence the host puts into the
  configuration is in ascending order of the pair (length of the target, target), that is
  by length, which Python counts in code points, and then lexically by code point. The
  targets \<open>/a\<close>, \<open>/a/b\<close>, \<open>/\<close> come out as \<open>/\<close>, \<open>/a\<close>, \<open>/a/b\<close>, on their own and
  before the three mounts the host always adds; the target \<open>/\<close> followed by the letter e
  with an acute accent (code point 233), two code points and three bytes of UTF-8, comes
  before \<open>/ab\<close>. The guest applies the mounts of the configuration it has decoded one
  after the other in the order of the list: with every system call succeeding, the
  \<open>mount\<close> calls that \<open>prepare\<close> makes, and those of the whole of \<open>execute_config\<close>, are
  exactly the calls for the mounts of the list, in its order, each on \<open>/host\<close> followed
  by the target; whatever fails, the \<open>mount\<close> calls made are an initial part of that
  sequence. For the three targets above they are on \<open>/host/\<close>, \<open>/host/a\<close> and
  \<open>/host/a/b\<close>. That the list the guest decodes is the list the host has serialised, in
  the same order, is the protobuf library's doing.
\<close>

theorem cfg_mount_sorted_by_length_then_name:
  "sorted (map (\<lambda>m. (length (target m), target m)) (cfg_mount isdir abspath args))
   \<and> map target (sorted_mounts [(py ''/a'', host_mount (py ''/a'') (py ''/a'') True),
                                 (py ''/a/b'', host_mount (py ''/a/b'') (py ''/a/b'') True),
                                 (py ''/'', host_mount (py ''/'') (py ''/'') True)])
       = [py ''/'', py ''/a'', py ''/a/b'']
   \<and> cfg_mount (\<lambda>d. False) (\<lambda>p. p)
          \<lparr>args_base_mounts = False, args_mount = [py ''/a'', py ''/a/b'', py ''/''],
           args_mount_write = [], args_translate = [], args_translate_write = []\<rparr>
       = [host_mount (py ''/'') (py ''/'') True, host_mount (py ''/a'') (py ''/a'') True,
          host_mount (py ''/a/b'') (py ''/a/b'') True,
          plain_mount ''/sys'' ''sysfs'' ''sysfs'', plain_mount ''/tmp'' ''tmpfs'' ''tmpfs'',
          plain_mount ''/proc'' ''proc'' ''proc'']
   \<and> map target (sorted_mounts [(py ''/ab'', host_mount (py ''/ab'') (py ''/ab'') True),
                                 ([47, 233], host_mount [47, 233] [47, 233] True)])
       = [[47, 233], py ''/ab'']
   \<and> filter is_call (fst (for_each (handle_mount (\<lambda>c. True)) ms)) = map CallMount ms
   \<and> filter is_mount_sys (fst (prepare (ge\<lparr>sys_ok := \<lambda>c. True\<rparr>) cfg))
       = map (\<lambda>m. MountSys (source m) (mount_point (target m)) (fstype m) (mount_flags m)
                    (if data m \<noteq> [] then Some (data m) else None)) (mount cfg)
   \<and> filter is_mount_sys (fst (execute_config (ge\<lparr>sys_ok := \<lambda>c. True\<rparr>) cfg))
       = map (\<lambda>m. MountSys (source m) (mount_point (target m)) (fstype m) (mount_flags m)
                    (if data m \<noteq> [] then Some (data m) else None)) (mount cfg)
   \<and> (\<exists>n. filter is_mount_sys (fst (execute_config ge cfg))
       = take n (map (\<lambda>m. MountSys (source m) (mount_point (target m)) (fstype m) (mount_flags m)
                            (if data m \<noteq> [] then Some (data m) else None)) (mount cfg)))
   \<and> filter is_mount_sys (fst (execute_config (example_env [])
         (mounts_cfg [hostfs_mount ''/'' ''/'', hostfs_mount ''/a'' ''/a/'',
                      hostfs_mount ''/a/b'' ''/a/b/''])))
       = [MountSys ''none'' ''/host/'' ''hostfs'' 3 (Some ''/''),
          MountSys ''none'' ''/host/a'' ''hostfs'' 3 (Some ''/a/''),
          MountSys ''none'' ''/host/a/b'' ''hostfs'' 3 (Some ''/a/b/'')]"
proof (intro conjI)
  have mc: "mount_call = (\<lambda>m. MountSys (source m) (mount_point (target m)) (fstype m) (mount_flags m)
                    (if data m \<noteq> [] then Some (data m) else None))"
    by (rule ext) (simp add: mount_call_def)
  have ok: "sys_ok (ge\<lparr>sys_ok := \<lambda>c. True\<rparr>) = (\<lambda>c. True)" by simp
  show p: "filter is_mount_sys (fst (prepare (ge\<lparr>sys_ok := \<lambda>c. True\<rparr>) cfg))
       = map (\<lambda>m. MountSys (source m) (mount_point (target m)) (fstype m) (mount_flags m)
                    (if data m \<noteq> [] then Some (data m) else None)) (mount cfg)"
    using mounts_of_prepare_ok(1) [OF ok, of cfg] by (simp only: mc)
  show "filter is_mount_sys (fst (execute_config (ge\<lparr>sys_ok := \<lambda>c. True\<rparr>) cfg))
       = map (\<lambda>m. MountSys (source m) (mount_point (target m)) (fstype m) (mount_flags m)
                    (if data m \<noteq> [] then Some (data m) else None)) (mount cfg)"
    unfolding mounts_of_execute_config by (rule p)
  show "\<exists>n. filter is_mount_sys (fst (execute_config ge cfg))
       = take n (map (\<lambda>m. MountSys (source m) (mount_point (target m)) (fstype m) (mount_flags m)
                            (if data m \<noteq> [] then Some (data m) else None)) (mount cfg))"
    using mounts_prefix_prepare [of ge cfg] unfolding mounts_of_execute_config mc .
  have e: "sys_ok (example_env []) = (\<lambda>c. True)" by (simp add: example_env_def)
  show "filter is_mount_sys (fst (execute_config (example_env [])
         (mounts_cfg [hostfs_mount ''/'' ''/'', hostfs_mount ''/a'' ''/a/'',
                      hostfs_mount ''/a/b'' ''/a/b/''])))
       = [MountSys ''none'' ''/host/'' ''hostfs'' 3 (Some ''/''),
          MountSys ''none'' ''/host/a'' ''hostfs'' 3 (Some ''/a/''),
          MountSys ''none'' ''/host/a/b'' ''hostfs'' 3 (Some ''/a/b/'')]"
    unfolding mounts_of_execute_config mounts_of_prepare_ok(1) [OF e]
    by (simp add: mounts_cfg_def mount_call_def hostfs_mount_def mount_point_def mount_flags_def
        MS_RDONLY_def MS_NOSUID_def Let_def)
  show "filter is_call (fst (for_each (handle_mount (\<lambda>c. True)) ms)) = map CallMount ms"
    by (simp add: mounts_applied_in_order)
  show "sorted (map (\<lambda>m. (length (target m), target m)) (cfg_mount isdir abspath args))"
    using sorted_mounts_sorted [OF keyed_host_mounts, of isdir abspath args]
    by (simp add: cfg_mount_def sort_order_def)
  show "map target (sorted_mounts [(py ''/a'', host_mount (py ''/a'') (py ''/a'') True),
                                 (py ''/a/b'', host_mount (py ''/a/b'') (py ''/a/b'') True),
                                 (py ''/'', host_mount (py ''/'') (py ''/'') True)])
       = [py ''/'', py ''/a'', py ''/a/b'']"
    by code_simp
  show "cfg_mount (\<lambda>d. False) (\<lambda>p. p)
          \<lparr>args_base_mounts = False, args_mount = [py ''/a'', py ''/a/b'', py ''/''],
           args_mount_write = [], args_translate = [], args_translate_write = []\<rparr>
       = [host_mount (py ''/'') (py ''/'') True, host_mount (py ''/a'') (py ''/a'') True,
          host_mount (py ''/a/b'') (py ''/a/b'') True,
          plain_mount ''/sys'' ''sysfs'' ''sysfs'', plain_mount ''/tmp'' ''tmpfs'' ''tmpfs'',
          plain_mount ''/proc'' ''proc'' ''proc'']"
    by code_simp
  show "map target (sorted_mounts [(py ''/ab'', host_mount (py ''/ab'') (py ''/ab'') True),
                                 ([47, 233], host_mount [47, 233] [47, 233] True)])
       = [[47, 233], py ''/ab'']"
    by code_simp
qed

subsection \<open>Where a mount point lies\<close>











end
